theory Spec2Isabelle
  imports Complex_Main "HOL-Library.Word" "HOL-Library.AList"
begin

section \<open>The telemetry pipeline of ebpfEdgeNode, embedded\<close>

text \<open>
  The kernel side (\<^verbatim>\<open>telemetry.bpf.c\<close>) and the userspace agent (\<^verbatim>\<open>agent.c\<close>) are
  translated function by function.  Conventions:
  \<^item> \<^verbatim>\<open>__u32\<close> and \<^verbatim>\<open>__u64\<close> are 32 and 64 bit words, so \<open>+\<close> and \<open>-\<close> wrap as in C;
  \<^item> C \<^verbatim>\<open>int\<close> loop counters and slot numbers stay within \<open>0..64\<close> and are naturals;
  \<^item> \<^verbatim>\<open>time_t\<close> is an integer;
  \<^item> a finite \<^verbatim>\<open>double\<close> is a real number and double arithmetic is taken to be exact; the
    non-finite results a division by zero produces are values of their own;
  \<^item> what C leaves undefined is an error value of the model;
  \<^item> results of helpers and system calls (processor id, clock, random numbers, ring buffer
    space, \<^verbatim>\<open>/proc/stat\<close>, the poll) are inputs of the function that calls them.
\<close>

type_synonym u32 = "32 word"
type_synonym u64 = "64 word"

subsection \<open>\<^verbatim>\<open>telemetry.bpf.c\<close>: data\<close>

definition MAX_SLOTS :: nat where
  "MAX_SLOTS = 64"

definition MAX_NODES :: nat where
  "MAX_NODES = 256"

text \<open>
  \<^verbatim>\<open>struct hist { __u32 slots[MAX_SLOTS]; }\<close>.  The array is a function of the index; the
  program reads and writes cells below \<open>MAX_SLOTS\<close> only.
\<close>

record hist =
  slots :: "nat \<Rightarrow> u32"

record node_metrics =
  rtt_sum :: u64
  rtt_count :: u64
  retrans_count :: u64
  drop_count :: u64
  runqlat_sum :: u64
  runqlat_count :: u64
  cpu_util :: u32
  timestamp :: u64

text \<open>\<^verbatim>\<open>struct telemetry_event\<close>; the fields carry the prefix \<open>ev_\<close>.\<close>

record telemetry_event =
  ev_node_id :: u32
  ev_event_type :: u32
  ev_value :: u64
  ev_timestamp :: u64
  ev_extra_data :: u32

subsection \<open>\<^verbatim>\<open>value_to_slot\<close>\<close>

text \<open>
  \<^verbatim>\<open>
  int slot = 0;
  while (value > 1 && slot < MAX_SLOTS - 1) { value >>= 1; slot++; }
  return slot;
  \<close>
\<close>

function value_to_slot_loop :: "u64 \<Rightarrow> nat \<Rightarrow> nat" where
  "value_to_slot_loop v slot =
     (if v > 1 \<and> slot < MAX_SLOTS - 1
      then value_to_slot_loop (drop_bit 1 v) (slot + 1)
      else slot)"
  by pat_completeness auto
termination
  by (relation "measure (\<lambda>(v, slot). MAX_SLOTS - 1 - slot)") auto

definition value_to_slot :: "u64 \<Rightarrow> nat" where
  "value_to_slot v = (if v = 0 then 0 else value_to_slot_loop v 0)"

text \<open>
  The specification's bucket index, in its own words: the number of halvings that bring the
  sample down to one (the integer part of its binary logarithm), clamped to the last bucket
  for samples of at least \<open>2 ^ 63\<close>.
\<close>

fun halvings :: "nat \<Rightarrow> nat" where
  "halvings n = (if n \<le> 1 then 0 else Suc (halvings (n div 2)))"

definition spec_bucket :: "u64 \<Rightarrow> nat" where
  "spec_bucket v = (if 2 ^ 63 \<le> unat v then MAX_SLOTS - 1 else halvings (unat v))"

declare halvings.simps [simp del]
declare value_to_slot_loop.simps [simp del]

subsection \<open>\<^verbatim>\<open>telemetry.bpf.c\<close>: maps and helpers\<close>

text \<open>
  A hash map is the list of its entries, one per key.  \<^verbatim>\<open>bpf_map_update_elem\<close> with
  \<^verbatim>\<open>BPF_ANY\<close> replaces the value of a key the map holds, adds a key while the map has
  fewer than \<^verbatim>\<open>max_entries\<close> entries, and otherwise fails and leaves the map as it is (the
  program never looks at its return value).
\<close>

definition bpf_map_lookup_elem :: "('k \<times> 'v) list \<Rightarrow> 'k \<Rightarrow> 'v option" where
  "bpf_map_lookup_elem m k = map_of m k"

definition bpf_map_update_elem :: "nat \<Rightarrow> ('k \<times> 'v) list \<Rightarrow> 'k \<Rightarrow> 'v \<Rightarrow> ('k \<times> 'v) list" where
  "bpf_map_update_elem max_entries m k v =
     (if map_of m k = None \<and> max_entries \<le> length m then m else AList.update k v m)"

definition bpf_map_delete_elem :: "('k \<times> 'v) list \<Rightarrow> 'k \<Rightarrow> ('k \<times> 'v) list" where
  "bpf_map_delete_elem m k = AList.delete k m"

text \<open>The four maps; \<open>events\<close> holds the records submitted to the ring buffer, oldest first.\<close>

record bpf_maps =
  node_metrics_map :: "(u32 \<times> node_metrics) list"
  rtt_hist_map :: "(u32 \<times> hist) list"
  drop_reason_map :: "(u32 \<times> u64) list"
  events :: "telemetry_event list"

text \<open>
  What the helpers return during one run of a program: the processor, the clock at its
  successive readings, the random number, and whether \<^verbatim>\<open>bpf_ringbuf_reserve\<close> finds room.
\<close>

record helpers =
  smp_processor_id :: u32
  ktime_get_ns :: "nat \<Rightarrow> u64"
  prandom_u32 :: u32
  ringbuf_reserve :: bool

definition get_node_id :: "helpers \<Rightarrow> u32" where
  "get_node_id h = smp_processor_id h mod 8"

text \<open>\<^verbatim>\<open>struct hist new_hist = {};\<close> and \<^verbatim>\<open>struct node_metrics new_metrics = {};\<close>\<close>

definition new_hist :: hist where
  "new_hist = \<lparr>slots = (\<lambda>i. 0)\<rparr>"

definition new_metrics :: node_metrics where
  "new_metrics =
     \<lparr>rtt_sum = 0, rtt_count = 0, retrans_count = 0, drop_count = 0, runqlat_sum = 0,
      runqlat_count = 0, cpu_util = 0, timestamp = 0\<rparr>"

text \<open>
  The pattern every program repeats:
  \<^verbatim>\<open>
  metrics = bpf_map_lookup_elem(&node_metrics_map, &node_id);
  if (!metrics) {
      bpf_map_update_elem(&node_metrics_map, &node_id, &new_metrics, BPF_ANY);
      metrics = bpf_map_lookup_elem(&node_metrics_map, &node_id);
      ...
  \<close>
  up to the second lookup, whose result the caller tests.
\<close>

definition lookup_or_create :: "nat \<Rightarrow> ('k \<times> 'v) list \<Rightarrow> 'k \<Rightarrow> 'v \<Rightarrow> ('k \<times> 'v) list" where
  "lookup_or_create max_entries m k v =
     (case bpf_map_lookup_elem m k of
        Some x \<Rightarrow> m
      | None \<Rightarrow> bpf_map_update_elem max_entries m k v)"

text \<open>\<^verbatim>\<open>bpf_ringbuf_reserve\<close>, the assignments to the record, \<^verbatim>\<open>bpf_ringbuf_submit\<close>.\<close>

definition ringbuf_submit :: "helpers \<Rightarrow> telemetry_event \<Rightarrow> bpf_maps \<Rightarrow> bpf_maps" where
  "ringbuf_submit h e s = (if ringbuf_reserve h then s\<lparr>events := events s @ [e]\<rparr> else s)"

subsection \<open>\<^verbatim>\<open>telemetry.bpf.c\<close>: the five programs\<close>

text \<open>
  What \<^verbatim>\<open>trace_tcp_ack\<close> finds in its context: a null socket, a socket whose
  \<^verbatim>\<open>srtt_us\<close> cannot be read, or the value read.
\<close>

datatype tcp_ack_ctx = Sk_null | Srtt_unreadable | Srtt_us u32

definition trace_tcp_ack :: "helpers \<Rightarrow> tcp_ack_ctx \<Rightarrow> bpf_maps \<Rightarrow> bpf_maps" where
  "trace_tcp_ack h ctx s =
     (case ctx of
        Sk_null \<Rightarrow> s
      | Srtt_unreadable \<Rightarrow> s
      | Srtt_us srtt_us \<Rightarrow>
          (let rtt_ms = drop_bit 3 srtt_us div 1000;
               node_id = get_node_id h;
               s1 = s\<lparr>rtt_hist_map :=
                       lookup_or_create MAX_NODES (rtt_hist_map s) node_id new_hist\<rparr>
           in case bpf_map_lookup_elem (rtt_hist_map s1) node_id of
                None \<Rightarrow> s1
              | Some hist \<Rightarrow>
                  (let slot = value_to_slot (ucast rtt_ms);
                       s2 = (if slot < MAX_SLOTS then
                               s1\<lparr>rtt_hist_map :=
                                    AList.update node_id
                                      (hist\<lparr>slots := (slots hist)(slot := slots hist slot + 1)\<rparr>)
                                      (rtt_hist_map s1)\<rparr>
                             else s1);
                       s3 = s2\<lparr>node_metrics_map :=
                                 lookup_or_create MAX_NODES (node_metrics_map s2) node_id
                                   new_metrics\<rparr>
                   in case bpf_map_lookup_elem (node_metrics_map s3) node_id of
                        None \<Rightarrow> s3
                      | Some metrics \<Rightarrow>
                          (let s4 = s3\<lparr>node_metrics_map :=
                                         AList.update node_id
                                           (metrics\<lparr>rtt_sum := rtt_sum metrics + ucast rtt_ms,
                                                    rtt_count := rtt_count metrics + 1,
                                                    timestamp := ktime_get_ns h 0\<rparr>)
                                           (node_metrics_map s3)\<rparr>
                           in if prandom_u32 h mod 100 = 0 then
                                ringbuf_submit h
                                  \<lparr>ev_node_id = node_id, ev_event_type = 1,
                                   ev_value = ucast rtt_ms, ev_timestamp = ktime_get_ns h 1,
                                   ev_extra_data = 0\<rparr> s4
                              else s4))))"

definition trace_tcp_retrans :: "helpers \<Rightarrow> bpf_maps \<Rightarrow> bpf_maps" where
  "trace_tcp_retrans h s =
     (let node_id = get_node_id h;
          s1 = s\<lparr>node_metrics_map :=
                  lookup_or_create MAX_NODES (node_metrics_map s) node_id new_metrics\<rparr>
      in case bpf_map_lookup_elem (node_metrics_map s1) node_id of
           None \<Rightarrow> s1
         | Some metrics \<Rightarrow>
             ringbuf_submit h
               \<lparr>ev_node_id = node_id, ev_event_type = 2, ev_value = 1,
                ev_timestamp = ktime_get_ns h 1, ev_extra_data = 0\<rparr>
               (s1\<lparr>node_metrics_map :=
                     AList.update node_id
                       (metrics\<lparr>retrans_count := retrans_count metrics + 1,
                                timestamp := ktime_get_ns h 0\<rparr>)
                       (node_metrics_map s1)\<rparr>))"

text \<open>
  The context of \<^verbatim>\<open>trace_skb_drop\<close>: the drop reason where the kernel has the field.  The
  drop reason map has 64 entries.
\<close>

definition trace_skb_drop :: "helpers \<Rightarrow> u32 option \<Rightarrow> bpf_maps \<Rightarrow> bpf_maps" where
  "trace_skb_drop h ctx s =
     (let reason = (case ctx of None \<Rightarrow> 0 | Some r \<Rightarrow> r);
          node_id = get_node_id h;
          s1 = s\<lparr>drop_reason_map :=
                  (case bpf_map_lookup_elem (drop_reason_map s) reason of
                     None \<Rightarrow> bpf_map_update_elem 64 (drop_reason_map s) reason 1
                   | Some c \<Rightarrow> AList.update reason (c + 1) (drop_reason_map s))\<rparr>;
          s2 = s1\<lparr>node_metrics_map :=
                   lookup_or_create MAX_NODES (node_metrics_map s1) node_id new_metrics\<rparr>
      in case bpf_map_lookup_elem (node_metrics_map s2) node_id of
           None \<Rightarrow> s2
         | Some metrics \<Rightarrow>
             (let s3 = s2\<lparr>node_metrics_map :=
                            AList.update node_id
                              (metrics\<lparr>drop_count := drop_count metrics + 1,
                                       timestamp := ktime_get_ns h 0\<rparr>)
                              (node_metrics_map s2)\<rparr>
              in if prandom_u32 h mod 10 = 0 then
                   ringbuf_submit h
                     \<lparr>ev_node_id = node_id, ev_event_type = 3, ev_value = 1,
                      ev_timestamp = ktime_get_ns h 1, ev_extra_data = reason\<rparr> s3
                 else s3))"

text \<open>
  \<^verbatim>\<open>trace_sched_wakeup\<close> stores into \<^verbatim>\<open>node_metrics_map\<close>, under the key \<^verbatim>\<open>pid\<close>, the value
  at \<^verbatim>\<open>&ts\<close>.  The map's values are \<^verbatim>\<open>struct node_metrics\<close>: the stored record has \<^verbatim>\<open>ts\<close>
  as its first field, \<^verbatim>\<open>rtt_sum\<close>, and in its other fields what lies after \<^verbatim>\<open>ts\<close> on the
  program's stack, the input \<open>stack\<close>.
\<close>

definition trace_sched_wakeup :: "helpers \<Rightarrow> u32 \<Rightarrow> node_metrics \<Rightarrow> bpf_maps \<Rightarrow> bpf_maps" where
  "trace_sched_wakeup h pid stack s =
     (let ts = ktime_get_ns h 0
      in s\<lparr>node_metrics_map :=
             bpf_map_update_elem MAX_NODES (node_metrics_map s) pid (stack\<lparr>rtt_sum := ts\<rparr>)\<rparr>)"

text \<open>
  \<^verbatim>\<open>trace_sched_switch\<close> reads the entry of \<^verbatim>\<open>next_pid\<close> through a \<^verbatim>\<open>__u64\<close> pointer, that
  is its first field, \<^verbatim>\<open>rtt_sum\<close>.
\<close>

definition trace_sched_switch :: "helpers \<Rightarrow> u32 \<Rightarrow> bpf_maps \<Rightarrow> bpf_maps" where
  "trace_sched_switch h next_pid s =
     (let ts = ktime_get_ns h 0
      in case bpf_map_lookup_elem (node_metrics_map s) next_pid of
           None \<Rightarrow> s
         | Some wakeup \<Rightarrow>
             (let wakeup_ts = rtt_sum wakeup;
                  latency_ns = ts - wakeup_ts;
                  latency_ms = (ucast (latency_ns div 1000000) :: u32);
                  node_id = get_node_id h;
                  s1 = s\<lparr>node_metrics_map :=
                          lookup_or_create MAX_NODES (node_metrics_map s) node_id new_metrics\<rparr>
              in case bpf_map_lookup_elem (node_metrics_map s1) node_id of
                   None \<Rightarrow> s1
                 | Some metrics \<Rightarrow>
                     (let s2 = s1\<lparr>node_metrics_map :=
                                    AList.update node_id
                                      (metrics\<lparr>runqlat_sum :=
                                                 runqlat_sum metrics + ucast latency_ms,
                                               runqlat_count := runqlat_count metrics + 1,
                                               timestamp := ts\<rparr>)
                                      (node_metrics_map s1)\<rparr>
                      in s2\<lparr>node_metrics_map :=
                              bpf_map_delete_elem (node_metrics_map s2) next_pid\<rparr>)))"

text \<open>
  One invocation of a program, with its context, and a sequence of invocations run one
  after the other from a given state of the maps.
\<close>

datatype tracepoint =
    Tcp_ack tcp_ack_ctx
  | Tcp_retransmit_skb
  | Kfree_skb "u32 option"
  | Sched_wakeup u32 node_metrics
  | Sched_switch u32

fun invoke :: "helpers \<times> tracepoint \<Rightarrow> bpf_maps \<Rightarrow> bpf_maps" where
  "invoke (h, Tcp_ack ctx) s = trace_tcp_ack h ctx s"
| "invoke (h, Tcp_retransmit_skb) s = trace_tcp_retrans h s"
| "invoke (h, Kfree_skb ctx) s = trace_skb_drop h ctx s"
| "invoke (h, Sched_wakeup pid stack) s = trace_sched_wakeup h pid stack s"
| "invoke (h, Sched_switch next_pid) s = trace_sched_switch h next_pid s"

definition run :: "(helpers \<times> tracepoint) list \<Rightarrow> bpf_maps \<Rightarrow> bpf_maps" where
  "run invocations s = fold invoke invocations s"

text \<open>
  The two programs that use \<^verbatim>\<open>node_metrics_map\<close> for wakeup timestamps, and what an
  invocation adds to the retransmission and drop counters of node \<open>n\<close>.
\<close>

definition retrans_delta :: "u32 \<Rightarrow> helpers \<times> tracepoint \<Rightarrow> u64" where
  "retrans_delta n call =
     (case snd call of
        Tcp_retransmit_skb \<Rightarrow> if get_node_id (fst call) = n then 1 else 0
      | _ \<Rightarrow> 0)"

definition drop_delta :: "u32 \<Rightarrow> helpers \<times> tracepoint \<Rightarrow> u64" where
  "drop_delta n call =
     (case snd call of
        Kfree_skb ctx \<Rightarrow> if get_node_id (fst call) = n then 1 else 0
      | _ \<Rightarrow> 0)"

fun sched_program :: "helpers \<times> tracepoint \<Rightarrow> bool" where
  "sched_program (h, Sched_wakeup pid stack) = True"
| "sched_program (h, Sched_switch next_pid) = True"
| "sched_program (h, tp) = False"

definition no_maps :: bpf_maps where
  "no_maps = \<lparr>node_metrics_map = [], rtt_hist_map = [], drop_reason_map = [], events = []\<rparr>"

subsection \<open>\<^verbatim>\<open>agent.c\<close>: doubles and undefined behaviour\<close>

text \<open>
  A \<^verbatim>\<open>double\<close> is a real number, or one of the two non-finite results that
  \<^verbatim>\<open>get_cpu_utilization\<close> can produce when it divides by a zero total.
\<close>

datatype double = Finite real | PosInf | NaN

datatype undefined_behaviour = Shift_overflow | Conversion_overflow

text \<open>
  \<^verbatim>\<open>1 << i\<close> where \<^verbatim>\<open>1\<close> and \<^verbatim>\<open>i\<close> are \<^verbatim>\<open>int\<close> (32 bits): the result is \<open>2^i\<close> when an
  \<^verbatim>\<open>int\<close> can hold it, that is for \<open>i < 31\<close>; C leaves every other shift undefined.
\<close>

definition shl_one :: "nat \<Rightarrow> undefined_behaviour + int" where
  "shl_one i = (if i < 31 then Inr (2 ^ i) else Inl Shift_overflow)"

text \<open>\<^verbatim>\<open>(double)(1 << i)\<close>: the conversion of an \<^verbatim>\<open>int\<close> to \<^verbatim>\<open>double\<close> is exact.\<close>

definition bucket_value :: "nat \<Rightarrow> undefined_behaviour + double" where
  "bucket_value i = (case shl_one i of Inl e \<Rightarrow> Inl e | Inr v \<Rightarrow> Inr (Finite (of_int v)))"

text \<open>
  The conversion of a \<^verbatim>\<open>double\<close> to \<^verbatim>\<open>__u32\<close> discards the fractional part; it is undefined
  when the integral part is not a value of the type.
\<close>

definition double_to_u32 :: "real \<Rightarrow> undefined_behaviour + u32" where
  "double_to_u32 x =
     (let t = (if 0 \<le> x then \<lfloor>x\<rfloor> else \<lceil>x\<rceil>)
      in if 0 \<le> t \<and> t < 2 ^ 32 then Inr (word_of_int t) else Inl Conversion_overflow)"

subsection \<open>\<^verbatim>\<open>calculate_percentile\<close>\<close>

text \<open>
  \<^verbatim>\<open>for (int i = 0; i < MAX_SLOTS; i++) total += hist->slots[i];\<close>
  (the variable \<^verbatim>\<open>total\<close> is \<open>tot\<close> here).
\<close>

function total_loop :: "hist \<Rightarrow> nat \<Rightarrow> u32 \<Rightarrow> u32" where
  "total_loop h i tot =
     (if i < MAX_SLOTS then total_loop h (i + 1) (tot + slots h i) else tot)"
  by pat_completeness auto
termination
  by (relation "measure (\<lambda>(h, i, tot). MAX_SLOTS - i)") auto

text \<open>
  \<^verbatim>\<open>
  for (int i = 0; i < MAX_SLOTS; i++) {
      running_count += hist->slots[i];
      if (running_count >= target_count)
          return (double)(1 << i);
  }
  return 0.0;
  \<close>
\<close>

function bucket_loop :: "hist \<Rightarrow> u32 \<Rightarrow> nat \<Rightarrow> u32 \<Rightarrow> undefined_behaviour + double" where
  "bucket_loop h target_count i running_count =
     (if i < MAX_SLOTS then
        (if running_count + slots h i \<ge> target_count
         then bucket_value i
         else bucket_loop h target_count (i + 1) (running_count + slots h i))
      else Inr (Finite 0))"
  by pat_completeness auto
termination
  by (relation "measure (\<lambda>(h, target_count, i, running_count). MAX_SLOTS - i)") auto

definition calculate_percentile :: "hist \<Rightarrow> real \<Rightarrow> undefined_behaviour + double" where
  "calculate_percentile h percentile =
     (let tot = total_loop h 0 0 in
      if tot = 0 then Inr (Finite 0)
      else (case double_to_u32 ((real (unat tot) * percentile) / 100) of
              Inl e \<Rightarrow> Inl e
            | Inr target_count \<Rightarrow> bucket_loop h target_count 0 0))"

declare total_loop.simps [simp del]
declare bucket_loop.simps [simp del]

text \<open>
  The value of \<^verbatim>\<open>running_count\<close> after the iteration \<open>k\<close> of a walk that entered iteration
  \<open>i\<close> with the value \<open>r\<close>: \<open>r\<close> plus the slots \<open>i\<close> to \<open>k\<close>, in \<^verbatim>\<open>__u32\<close> arithmetic.
\<close>

definition running_after :: "hist \<Rightarrow> nat \<Rightarrow> u32 \<Rightarrow> nat \<Rightarrow> u32" where
  "running_after h i r k = r + sum_list (map (slots h) [i..<Suc k])"

subsection \<open>\<^verbatim>\<open>get_cpu_utilization\<close>\<close>

text \<open>
  What reading \<^verbatim>\<open>/proc/stat\<close> gave: \<^verbatim>\<open>fopen\<close> failed, or \<^verbatim>\<open>fscanf\<close> assigned the listed
  values (seven when the line matched).
\<close>

datatype proc_stat = Open_failed | Scanned "u64 list"

text \<open>\<^verbatim>\<open>(double)busy / total * 100.0\<close>: a division by zero gives NaN or infinity.\<close>

definition busy_percent :: "u64 \<Rightarrow> u64 \<Rightarrow> double" where
  "busy_percent busy tot =
     (if tot \<noteq> 0 then Finite (real (unat busy) / real (unat tot) * 100)
      else if busy = 0 then NaN else PosInf)"

definition get_cpu_utilization :: "proc_stat \<Rightarrow> double" where
  "get_cpu_utilization fp =
     (case fp of
        Open_failed \<Rightarrow> Finite 0
      | Scanned vs \<Rightarrow>
          if length vs \<noteq> 7 then Finite 0
          else
            (let user = vs ! 0; nice = vs ! 1; system = vs ! 2; idle = vs ! 3;
                 iowait = vs ! 4; irq = vs ! 5; softirq = vs ! 6;
                 tot = user + nice + system + idle + iowait + irq + softirq;
                 busy = tot - idle - iowait
             in busy_percent busy tot))"

subsection \<open>\<^verbatim>\<open>update_metrics\<close>\<close>

record prometheus_metrics =
  rtt_p50_ms :: double
  rtt_p99_ms :: double
  tcp_retrans_rate :: double
  drop_rate :: double
  runqlat_p95_ms :: double
  cpu_utilization :: double
  node_name :: string
  last_update :: int

text \<open>The function's \<^verbatim>\<open>static\<close> variables, all initialised to 0.\<close>

record update_statics =
  prev_retrans :: u64
  prev_drops :: u64
  prev_time :: int

text \<open>
  What one call observes: the two tables as \<^verbatim>\<open>bpf_map_lookup_elem\<close> finds them (no entry:
  the lookup does not return 0), the clock at the two calls of \<^verbatim>\<open>time(NULL)\<close>, and
  \<^verbatim>\<open>/proc/stat\<close>.
\<close>

record update_env =
  node_lookup :: "u32 \<rightharpoonup> node_metrics"
  hist_lookup :: "u32 \<rightharpoonup> hist"
  time_first :: int
  time_last :: int
  stat :: proc_stat

text \<open>
  The block guarded by the first lookup: the two rates against the previous call's counters,
  the new baseline, and the mean run queue latency.  \<^verbatim>\<open>difftime\<close> is the difference of the
  two times as a \<^verbatim>\<open>double\<close>; the counter differences are \<^verbatim>\<open>__u64\<close> subtractions.
\<close>

definition node_block ::
  "node_metrics \<Rightarrow> int \<Rightarrow> update_statics \<times> prometheus_metrics \<Rightarrow>
   update_statics \<times> prometheus_metrics" where
  "node_block node_data current_time sm =
     (let st = fst sm; metrics = snd sm;
          m1 = (if prev_time st > 0 then
                  (let time_diff = real_of_int (current_time - prev_time st) in
                   if time_diff > 0 then
                     metrics\<lparr>tcp_retrans_rate :=
                               Finite (real (unat (retrans_count node_data - prev_retrans st))
                                       / time_diff),
                             drop_rate :=
                               Finite (real (unat (drop_count node_data - prev_drops st))
                                       / time_diff)\<rparr>
                   else metrics)
                else metrics);
          st' = \<lparr>prev_retrans = retrans_count node_data,
                 prev_drops = drop_count node_data,
                 prev_time = current_time\<rparr>;
          m2 = (if runqlat_count node_data > 0 then
                  m1\<lparr>runqlat_p95_ms :=
                       Finite (real (unat (runqlat_sum node_data))
                               / real (unat (runqlat_count node_data)))\<rparr>
                else m1)
      in (st', m2))"

text \<open>The block guarded by the second lookup: the two percentiles.\<close>

definition hist_block ::
  "hist \<Rightarrow> prometheus_metrics \<Rightarrow> undefined_behaviour + prometheus_metrics" where
  "hist_block rtt_hist metrics =
     (case calculate_percentile rtt_hist 50 of
        Inl e \<Rightarrow> Inl e
      | Inr p50 \<Rightarrow>
          (case calculate_percentile rtt_hist 99 of
             Inl e \<Rightarrow> Inl e
           | Inr p99 \<Rightarrow> Inr (metrics\<lparr>rtt_p50_ms := p50, rtt_p99_ms := p99\<rparr>)))"

definition update_metrics ::
  "update_env \<Rightarrow> u32 \<Rightarrow> update_statics \<times> prometheus_metrics \<Rightarrow>
   undefined_behaviour + update_statics \<times> prometheus_metrics" where
  "update_metrics env node_id sm =
     (let sm1 = (case node_lookup env node_id of
                   None \<Rightarrow> sm
                 | Some node_data \<Rightarrow> node_block node_data (time_first env) sm)
      in case (case hist_lookup env node_id of
                 None \<Rightarrow> Inr (snd sm1)
               | Some rtt_hist \<Rightarrow> hist_block rtt_hist (snd sm1)) of
           Inl e \<Rightarrow> Inl e
         | Inr m2 \<Rightarrow>
             Inr (fst sm1,
                  m2\<lparr>cpu_utilization := get_cpu_utilization (stat env),
                      last_update := time_last env\<rparr>))"

subsection \<open>\<^verbatim>\<open>export_prometheus_metrics\<close>, \<^verbatim>\<open>handle_event\<close> and the loop of \<^verbatim>\<open>main\<close>\<close>

text \<open>
  The lines the agent prints.  A sample line carries the gauge's name, the node label and
  the value that \<^verbatim>\<open>%.2f\<close> formats.
\<close>

datatype line =
    Help string string
  | Type_gauge string
  | Sample string string double
  | Blank
  | Debug_rtt u32 u64
  | Debug_retrans u32
  | Debug_drop u32 u32
  | Debug_runqlat u32 u64
  | Poll_error int

definition export_prometheus_metrics :: "prometheus_metrics \<Rightarrow> line list" where
  "export_prometheus_metrics metrics =
     [Help ''ebpf_rtt_p50_milliseconds'' ''50th percentile RTT in milliseconds'',
      Type_gauge ''ebpf_rtt_p50_milliseconds'',
      Sample ''ebpf_rtt_p50_milliseconds'' (node_name metrics) (rtt_p50_ms metrics),
      Help ''ebpf_rtt_p99_milliseconds'' ''99th percentile RTT in milliseconds'',
      Type_gauge ''ebpf_rtt_p99_milliseconds'',
      Sample ''ebpf_rtt_p99_milliseconds'' (node_name metrics) (rtt_p99_ms metrics),
      Help ''ebpf_tcp_retrans_rate'' ''TCP retransmission rate per second'',
      Type_gauge ''ebpf_tcp_retrans_rate'',
      Sample ''ebpf_tcp_retrans_rate'' (node_name metrics) (tcp_retrans_rate metrics),
      Help ''ebpf_drop_rate'' ''Packet drop rate per second'',
      Type_gauge ''ebpf_drop_rate'',
      Sample ''ebpf_drop_rate'' (node_name metrics) (drop_rate metrics),
      Help ''ebpf_runqlat_p95_milliseconds'' ''95th percentile runqueue latency'',
      Type_gauge ''ebpf_runqlat_p95_milliseconds'',
      Sample ''ebpf_runqlat_p95_milliseconds'' (node_name metrics) (runqlat_p95_ms metrics),
      Help ''ebpf_cpu_utilization'' ''CPU utilization percentage'',
      Type_gauge ''ebpf_cpu_utilization'',
      Sample ''ebpf_cpu_utilization'' (node_name metrics) (cpu_utilization metrics),
      Blank]"

definition handle_event :: "telemetry_event \<Rightarrow> line list" where
  "handle_event e =
     (if ev_event_type e = 1 then [Debug_rtt (ev_node_id e) (ev_value e)]
      else if ev_event_type e = 2 then [Debug_retrans (ev_node_id e)]
      else if ev_event_type e = 3 then [Debug_drop (ev_node_id e) (ev_extra_data e)]
      else if ev_event_type e = 4 then [Debug_runqlat (ev_node_id e) (ev_value e)]
      else [])"

definition EINTR :: int where
  "EINTR = 4"

text \<open>
  The state of \<^verbatim>\<open>main\<close> while it loops: its locals \<^verbatim>\<open>metrics\<close> and \<^verbatim>\<open>err\<close>, the static
  \<^verbatim>\<open>last_metrics_update\<close>, the statics of \<^verbatim>\<open>update_metrics\<close>, and what has been printed.
\<close>

record main_state =
  metrics :: prometheus_metrics
  err :: int
  last_metrics_update :: int
  statics :: update_statics
  printed :: "line list"

text \<open>
  What one pass of the loop observes: the flag \<^verbatim>\<open>exiting\<close> at the loop test, the events
  \<^verbatim>\<open>ring_buffer__poll\<close> hands to \<^verbatim>\<open>handle_event\<close> and its return value, the clock, and what
  \<^verbatim>\<open>update_metrics\<close> observes should the pass be a tick.
\<close>

record pass_env =
  exiting :: bool
  polled :: "telemetry_event list"
  poll_return :: int
  now :: int
  update :: update_env

datatype pass_result = Leave main_state | Again main_state

text \<open>
  A tick: \<^verbatim>\<open>update_metrics(&metrics, 0); export_prometheus_metrics(&metrics);
  last_metrics_update = now;\<close>
\<close>

definition tick :: "pass_env \<Rightarrow> main_state \<Rightarrow> undefined_behaviour + main_state" where
  "tick env s =
     (case update_metrics (update env) 0 (statics s, metrics s) of
        Inl e \<Rightarrow> Inl e
      | Inr sm \<Rightarrow>
          Inr (s\<lparr>statics := fst sm, metrics := snd sm,
                 printed := printed s @ export_prometheus_metrics (snd sm),
                 last_metrics_update := now env\<rparr>))"

definition loop_pass :: "pass_env \<Rightarrow> main_state \<Rightarrow> undefined_behaviour + pass_result" where
  "loop_pass env s =
     (if exiting env then Inr (Leave s)
      else
        (let s1 = s\<lparr>printed := printed s @ concat (map handle_event (polled env)),
                     err := poll_return env\<rparr>
         in if err s1 = - EINTR then Inr (Leave (s1\<lparr>err := 0\<rparr>))
            else if err s1 < 0 then
              Inr (Leave (s1\<lparr>printed := printed s1 @ [Poll_error (err s1)]\<rparr>))
            else if now env - last_metrics_update s1 \<ge> 5 then
              (case tick env s1 of Inl e \<Rightarrow> Inl e | Inr s2 \<Rightarrow> Inr (Again s2))
            else Inr (Again s1)))"

text \<open>The loop, run over the observations of its successive passes.\<close>

fun main_loop :: "pass_env list \<Rightarrow> main_state \<Rightarrow> undefined_behaviour + main_state" where
  "main_loop [] s = Inr s"
| "main_loop (env # envs) s =
     (case loop_pass env s of
        Inl e \<Rightarrow> Inl e
      | Inr (Leave s') \<Rightarrow> Inr s'
      | Inr (Again s') \<Rightarrow> main_loop envs s')"

subsection \<open>Concrete inputs\<close>

text \<open>\<^verbatim>\<open>struct prometheus_metrics metrics = {0};\<close> with the node's name filled in.\<close>

definition initial_metrics :: "string \<Rightarrow> prometheus_metrics" where
  "initial_metrics name =
     \<lparr>rtt_p50_ms = Finite 0, rtt_p99_ms = Finite 0, tcp_retrans_rate = Finite 0,
      drop_rate = Finite 0, runqlat_p95_ms = Finite 0, cpu_utilization = Finite 0,
      node_name = name, last_update = 0\<rparr>"



text \<open>Helper results on processors 0 and 1.\<close>

definition on_cpu0 :: helpers where
  "on_cpu0 = \<lparr>smp_processor_id = 0, ktime_get_ns = (\<lambda>n. 2000000000), prandom_u32 = 1,
               ringbuf_reserve = True\<rparr>"

definition on_cpu1 :: helpers where
  "on_cpu1 = \<lparr>smp_processor_id = 1, ktime_get_ns = (\<lambda>n. 1000000000), prandom_u32 = 1,
               ringbuf_reserve = True\<rparr>"

text \<open>
  A call of \<^verbatim>\<open>update_metrics\<close> at time \<open>t\<close> that finds node 0 with the given counts and no
  histogram, and the statics a call at time 100 left behind.
\<close>

definition call_at :: "int \<Rightarrow> u64 \<Rightarrow> u64 \<Rightarrow> update_env" where
  "call_at t retrans drops =
     \<lparr>node_lookup = [0 \<mapsto> new_metrics\<lparr>retrans_count := retrans, drop_count := drops\<rparr>],
      hist_lookup = Map.empty, time_first = t, time_last = t, stat = Open_failed\<rparr>"

definition previous_call :: "u64 \<Rightarrow> u64 \<Rightarrow> update_statics" where
  "previous_call retrans drops = \<lparr>prev_retrans = retrans, prev_drops = drops, prev_time = 100\<rparr>"

text \<open>
  A pass of the loop that is a tick and finds neither table entry of node 0, in a state
  that holds the values of an earlier tick.
\<close>

definition pass_without_entries :: pass_env where
  "pass_without_entries =
     \<lparr>exiting = False, polled = [], poll_return = 0, now = 110,
      update = \<lparr>node_lookup = Map.empty, hist_lookup = Map.empty, time_first = 110,
                time_last = 110, stat = Open_failed\<rparr>\<rparr>"

definition state_after_a_tick :: main_state where
  "state_after_a_tick =
     \<lparr>metrics = (initial_metrics ''edge'')
                  \<lparr>rtt_p50_ms := Finite 4, rtt_p99_ms := Finite 16,
                   tcp_retrans_rate := Finite 10, last_update := 105\<rparr>,
      err = 0, last_metrics_update = 105,
      statics = previous_call 60 7, printed = []\<rparr>"

section \<open>Properties\<close>

subsection \<open>Bucket assignment\<close>

lemma halvings_bracket: "0 < n \<Longrightarrow> 2 ^ halvings n \<le> n \<and> n < 2 ^ Suc (halvings n)"
proof (induction n rule: halvings.induct)
  case (1 n)
  show ?case
  proof (cases "n \<le> 1")
    case True
    with "1.prems" have "n = 1" by simp
    then show ?thesis by (simp add: halvings.simps)
  next
    case False
    then have h: "halvings n = Suc (halvings (n div 2))" by (subst halvings.simps) simp
    from False have "0 < n div 2" by simp
    with "1.IH" False
    have "2 ^ halvings (n div 2) \<le> n div 2 \<and> n div 2 < 2 ^ Suc (halvings (n div 2))"
      by simp
    then show ?thesis unfolding h by auto
  qed
qed

lemma halvings_unique:
  assumes "2 ^ k \<le> n" "n < 2 ^ Suc k"
  shows "halvings n = k"
proof -
  from assms have pos: "0 < n" by (metis less_le_trans zero_less_numeral zero_less_power)
  note b = halvings_bracket [OF pos]
  have "(2::nat) ^ k < 2 ^ Suc (halvings n)" using assms(1) b by linarith
  then have 1: "k < Suc (halvings n)"
    by (simp only: power_strict_increasing_iff one_less_numeral_iff semiring_norm)
  have "(2::nat) ^ halvings n < 2 ^ Suc k" using assms(2) b by linarith
  then have 2: "halvings n < Suc k"
    by (simp only: power_strict_increasing_iff one_less_numeral_iff semiring_norm)
  from 1 2 show ?thesis by simp
qed

lemma halvings_word_le: "halvings (unat (v :: u64)) \<le> 63"
proof (cases "v = 0")
  case True
  then show ?thesis by (simp add: halvings.simps)
next
  case False
  then have "0 < unat v" by (simp add: unat_gt_0)
  from halvings_bracket [OF this] have "2 ^ halvings (unat v) \<le> unat v" by simp
  moreover have "unat v < 2 ^ 64" using unsigned_less [of v] by simp
  ultimately have "(2::nat) ^ halvings (unat v) < 2 ^ 64" by linarith
  then have "halvings (unat v) < 64"
    by (simp only: power_strict_increasing_iff one_less_numeral_iff semiring_norm)
  then show ?thesis by simp
qed

lemma value_to_slot_loop_halvings:
  "slot \<le> 63 \<Longrightarrow> value_to_slot_loop v slot = min 63 (slot + halvings (unat v))"
proof (induction v slot rule: value_to_slot_loop.induct)
  case (1 v slot)
  show ?case
  proof (cases "v > 1 \<and> slot < MAX_SLOTS - 1")
    case True
    then have gt: "1 < unat v" by (simp add: word_less_nat_alt)
    have dv: "unat (drop_bit (Suc 0) v) = unat v div 2"
      by (simp add: drop_bit_eq_div unat_div_distrib)
    from gt have h: "halvings (unat v) = Suc (halvings (unat v div 2))"
      by (subst halvings.simps) simp
    from True have "slot + 1 \<le> 63" by (simp add: MAX_SLOTS_def)
    with "1.IH" True
    have "value_to_slot_loop (drop_bit 1 v) (slot + 1) =
          min 63 (slot + 1 + halvings (unat (drop_bit 1 v)))"
      by simp
    with True show ?thesis by (subst value_to_slot_loop.simps) (simp add: dv h)
  next
    case False
    then have r: "value_to_slot_loop v slot = slot"
      by (subst value_to_slot_loop.simps) auto
    from False consider "\<not> v > 1" | "63 \<le> slot" by (auto simp: MAX_SLOTS_def)
    then show ?thesis
    proof cases
      case 1
      then have "unat v \<le> 1" by (simp add: word_less_nat_alt)
      then have "halvings (unat v) = 0" by (subst halvings.simps) simp
      with r "1.prems" show ?thesis by simp
    next
      case 2
      with r "1.prems" show ?thesis by simp
    qed
  qed
qed

lemma value_to_slot_halvings: "value_to_slot v = halvings (unat v)"
proof (cases "v = 0")
  case True
  then show ?thesis by (simp add: value_to_slot_def halvings.simps)
next
  case False
  then show ?thesis
    using value_to_slot_loop_halvings [of 0 v] halvings_word_le [of v]
    by (simp add: value_to_slot_def)
qed

lemma value_to_slot_spec_bucket: "value_to_slot v = spec_bucket v"
proof (cases "2 ^ 63 \<le> unat v")
  case True
  moreover have "unat v < 2 ^ Suc 63" using unsigned_less [of v] by simp
  ultimately have "halvings (unat v) = 63" by (rule halvings_unique)
  with True show ?thesis by (simp add: value_to_slot_halvings spec_bucket_def MAX_SLOTS_def)
next
  case False
  then show ?thesis by (simp add: value_to_slot_halvings spec_bucket_def)
qed

lemma unat_pow2_u64:
  assumes "k < 64" shows "unat ((2::u64) ^ k) = 2 ^ k"
proof -
  have lt: "(2::nat) ^ k < 2 ^ 64" using assms
    by (simp only: power_strict_increasing_iff one_less_numeral_iff semiring_norm)
  have "(2::u64) ^ k = of_nat (2 ^ k)" by simp
  then have "unat ((2::u64) ^ k) = unat (of_nat (2 ^ k) :: u64)" by simp
  also have "\<dots> = 2 ^ k mod 2 ^ LENGTH(64)" by (simp only: unat_of_nat)
  also have "\<dots> = 2 ^ k" using lt by simp
  finally show ?thesis .
qed

lemma value_to_slot_pow2: "k < 64 \<Longrightarrow> value_to_slot (2 ^ k) = k"
  by (simp add: value_to_slot_halvings unat_pow2_u64 halvings_unique)

lemma unat_pow2_plus1_u64:
  assumes "k < 64" shows "unat ((2::u64) ^ k + 1) = 2 ^ k + 1"
proof -
  have "(2::nat) ^ k \<le> 2 ^ 63" using assms by (intro power_increasing) auto
  then have "(2::nat) ^ k + 1 < 2 ^ 64" by simp
  then show ?thesis using assms
    by (simp add: unat_word_ariths unat_pow2_u64)
qed

lemma value_to_slot_pow2_plus1:
  assumes "k < 64"
  shows "value_to_slot (2 ^ k + 1) = (if k = 0 then 1 else k)"
proof (cases "k = 0")
  case True
  then show ?thesis by (simp add: value_to_slot_halvings halvings.simps)
next
  case False
  then have "1 \<le> k" by simp
  then have "(2::nat) ^ 1 \<le> 2 ^ k" by (intro power_increasing) auto
  then have "(2::nat) ^ k + 1 < 2 ^ Suc k" by simp
  moreover have "(2::nat) ^ k \<le> 2 ^ k + 1" by simp
  ultimately have "halvings (2 ^ k + 1) = k" by (intro halvings_unique) auto
  with False assms show ?thesis
    by (simp add: value_to_slot_halvings unat_pow2_plus1_u64)
qed

text \<open>
  C10.  A sample of value 0 is well defined: \<^verbatim>\<open>value_to_slot\<close> returns slot 0 for it
  (the guard before the loop), although no range \<open>[2^i, 2^(i+1))\<close> contains 0.
\<close>

theorem value_to_slot_zero: "value_to_slot 0 = 0"
  by (simp add: value_to_slot_def)

text \<open>
  C2 (as the program has it).  For every sample the slot is the specification's bucket:
  the number of halvings, clamped to 63.  It is the integer part of the binary logarithm
  (\<open>2^slot \<le> v < 2^(slot+1)\<close> for a sample other than 0), and never exceeds 63.  For every
  \<open>k < 64\<close> the sample \<open>2^k\<close> goes to slot \<open>k\<close>.  The sample \<open>2^k + 1\<close> goes to slot \<open>k\<close> as
  well when \<open>1 \<le> k\<close>; only for \<open>k = 0\<close> (the sample 2) does it go to slot \<open>k + 1\<close>.
\<close>

theorem value_to_slot_floor_log2:
  "value_to_slot v = spec_bucket v
   \<and> value_to_slot v \<le> 63
   \<and> (v \<noteq> 0 \<longrightarrow> 2 ^ value_to_slot v \<le> unat v \<and> unat v < 2 ^ Suc (value_to_slot v))
   \<and> (k < 64 \<longrightarrow> value_to_slot (2 ^ k) = k)
   \<and> (k < 64 \<longrightarrow> value_to_slot (2 ^ k + 1) = (if k = 0 then 1 else k))"
proof -
  have "v \<noteq> 0 \<longrightarrow> 2 ^ value_to_slot v \<le> unat v \<and> unat v < 2 ^ Suc (value_to_slot v)"
    using halvings_bracket [of "unat v"] by (simp add: value_to_slot_halvings unat_gt_0)
  moreover have "value_to_slot v \<le> 63"
    by (simp add: value_to_slot_halvings halvings_word_le)
  ultimately show ?thesis
    using value_to_slot_spec_bucket [of v] value_to_slot_pow2 [of k]
      value_to_slot_pow2_plus1 [of k]
    by blast
qed

theorem value_to_slot_floor_log2_witness:
  "value_to_slot 5 = spec_bucket 5 \<and> value_to_slot 5 \<le> 63
   \<and> (5::u64) \<noteq> 0 \<and> 2 ^ value_to_slot 5 \<le> unat (5::u64)
   \<and> unat (5::u64) < 2 ^ Suc (value_to_slot 5)
   \<and> (3::nat) < 64 \<and> value_to_slot (2 ^ 3) = 3 \<and> value_to_slot (2 ^ 3 + 1) = 3"
proof -
  have a: "(5::u64) \<noteq> 0" by simp
  have b: "(3::nat) < 64" by simp
  have c: "(if (3::nat) = 0 then 1 else 3) = (3::nat)" by simp
  from value_to_slot_floor_log2 [of 5 3] show ?thesis unfolding c using a b by blast
qed

text \<open>
  C2 as the specification words it fails: the sample \<open>2^1 + 1 = 3\<close> is below the clamp
  boundary and goes to slot 1, not to slot 2.
\<close>

theorem value_to_slot_pow2_plus1_counterexample:
  "(1::nat) < 63 \<and> value_to_slot (2 ^ 1 + 1) = 1 \<and> value_to_slot (2 ^ 1 + 1) \<noteq> 1 + 1"
  by (simp add: value_to_slot_def value_to_slot_loop.simps MAX_SLOTS_def)

subsection \<open>The rate computation\<close>

lemma hist_block_rates:
  "hist_block h m = Inr m' \<Longrightarrow>
   tcp_retrans_rate m' = tcp_retrans_rate m \<and> drop_rate m' = drop_rate m
   \<and> runqlat_p95_ms m' = runqlat_p95_ms m"
  by (auto simp: hist_block_def split: sum.splits)

lemma update_metrics_Inr:
  assumes "update_metrics env nid sm = Inr sm'"
  shows "fst sm' = fst (case node_lookup env nid of None \<Rightarrow> sm
                        | Some nd \<Rightarrow> node_block nd (time_first env) sm)
    \<and> tcp_retrans_rate (snd sm') =
        tcp_retrans_rate (snd (case node_lookup env nid of None \<Rightarrow> sm
                               | Some nd \<Rightarrow> node_block nd (time_first env) sm))
    \<and> drop_rate (snd sm') =
        drop_rate (snd (case node_lookup env nid of None \<Rightarrow> sm
                        | Some nd \<Rightarrow> node_block nd (time_first env) sm))
    \<and> runqlat_p95_ms (snd sm') =
        runqlat_p95_ms (snd (case node_lookup env nid of None \<Rightarrow> sm
                        | Some nd \<Rightarrow> node_block nd (time_first env) sm))"
  using assms
  by (auto simp: update_metrics_def Let_def hist_block_def split: option.splits sum.splits)

lemma node_block_rates:
  "tcp_retrans_rate (snd (node_block nd t (st, m))) =
     (if 0 < prev_time st \<and> 0 < t - prev_time st
      then Finite (real (unat (retrans_count nd - prev_retrans st)) / real_of_int (t - prev_time st))
      else tcp_retrans_rate m)"
  "drop_rate (snd (node_block nd t (st, m))) =
     (if 0 < prev_time st \<and> 0 < t - prev_time st
      then Finite (real (unat (drop_count nd - prev_drops st)) / real_of_int (t - prev_time st))
      else drop_rate m)"
  by (simp_all add: node_block_def Let_def)

lemma call_at_update:
  "update_metrics (call_at t c d) 0 (previous_call pc pd, m) =
     Inr (\<lparr>prev_retrans = c, prev_drops = d, prev_time = t\<rparr>,
          (if 100 < t then
             m\<lparr>tcp_retrans_rate := Finite (real (unat (c - pc)) / real_of_int (t - 100)),
               drop_rate := Finite (real (unat (d - pd)) / real_of_int (t - 100))\<rparr>
           else m)
            \<lparr>cpu_utilization := Finite 0, last_update := t\<rparr>)"
  by (simp add: update_metrics_def node_block_def call_at_def previous_call_def
      new_metrics_def get_cpu_utilization_def Let_def)

lemma call_at_lookup:
  "node_lookup (call_at t c d) 0 = Some (new_metrics\<lparr>retrans_count := c, drop_count := d\<rparr>)"
  by (simp add: call_at_def)

lemma unat_sub_mod_u64:
  fixes a b :: u64
  shows "real (unat (a - b)) = real_of_int ((int (unat a) - int (unat b)) mod 2 ^ 64)"
proof -
  have "int (unat (a - b)) = uint (a - b)" by simp
  also have "\<dots> = (uint a - uint b) mod 2 ^ 64" by (simp add: uint_word_ariths)
  also have "\<dots> = (int (unat a) - int (unat b)) mod 2 ^ 64" by simp
  finally have "int (unat (a - b)) = (int (unat a) - int (unat b)) mod 2 ^ 64" .
  then have "real_of_int (int (unat (a - b))) =
             real_of_int ((int (unat a) - int (unat b)) mod 2 ^ 64)"
    by (rule arg_cong)
  then show ?thesis by (simp only: of_int_of_nat_eq)
qed

text \<open>
  C4 (as the program has it).  When \<^verbatim>\<open>update_metrics\<close> reads the node's counters and a
  previous call has left its time (\<open>prev_time > 0\<close>: the code computes \<^verbatim>\<open>time_diff\<close> under
  this test only), then with \<open>elapsed = current_time - prev_time\<close>: if \<open>elapsed > 0\<close> each
  rate is the counter's \<^verbatim>\<open>__u64\<close> difference divided by \<open>elapsed\<close>; that difference is
  \<open>(current - previous) mod 2^64\<close>, which is \<open>current - previous\<close> whenever the counter has
  not decreased; if \<open>elapsed \<le> 0\<close> both rates keep their previous values; and equal counts
  with \<open>elapsed > 0\<close> give the rate 0.
\<close>

theorem rate_engine:
  assumes "update_metrics env nid (st, m) = Inr (st', m')"
    and "node_lookup env nid = Some nd"
    and "0 < prev_time st"
  shows "(0 < time_first env - prev_time st \<longrightarrow>
            tcp_retrans_rate m' =
              Finite (real_of_int ((int (unat (retrans_count nd)) - int (unat (prev_retrans st)))
                                   mod 2 ^ 64)
                      / real_of_int (time_first env - prev_time st))
          \<and> drop_rate m' =
              Finite (real_of_int ((int (unat (drop_count nd)) - int (unat (prev_drops st)))
                                   mod 2 ^ 64)
                      / real_of_int (time_first env - prev_time st)))
       \<and> (0 < time_first env - prev_time st \<and> prev_retrans st \<le> retrans_count nd \<longrightarrow>
            tcp_retrans_rate m' =
              Finite ((real (unat (retrans_count nd)) - real (unat (prev_retrans st)))
                      / real_of_int (time_first env - prev_time st)))
       \<and> (0 < time_first env - prev_time st \<and> prev_drops st \<le> drop_count nd \<longrightarrow>
            drop_rate m' =
              Finite ((real (unat (drop_count nd)) - real (unat (prev_drops st)))
                      / real_of_int (time_first env - prev_time st)))
       \<and> (time_first env - prev_time st \<le> 0 \<longrightarrow>
            tcp_retrans_rate m' = tcp_retrans_rate m \<and> drop_rate m' = drop_rate m)
       \<and> (0 < time_first env - prev_time st \<and> retrans_count nd = prev_retrans st \<longrightarrow>
            tcp_retrans_rate m' = Finite 0)
       \<and> (0 < time_first env - prev_time st \<and> drop_count nd = prev_drops st \<longrightarrow>
            drop_rate m' = Finite 0)"
proof -
  let ?e = "real_of_int (time_first env - prev_time st)"
  from update_metrics_Inr [OF assms(1)] assms(2)
  have r: "tcp_retrans_rate m' = tcp_retrans_rate (snd (node_block nd (time_first env) (st, m)))"
    and d: "drop_rate m' = drop_rate (snd (node_block nd (time_first env) (st, m)))"
    by simp_all
  have pos: "0 < time_first env - prev_time st \<Longrightarrow>
      tcp_retrans_rate m' = Finite (real (unat (retrans_count nd - prev_retrans st)) / ?e)
      \<and> drop_rate m' = Finite (real (unat (drop_count nd - prev_drops st)) / ?e)"
    using assms(3) unfolding r d node_block_rates by simp
  have nonpos: "time_first env - prev_time st \<le> 0 \<longrightarrow>
      tcp_retrans_rate m' = tcp_retrans_rate m \<and> drop_rate m' = drop_rate m"
    using assms(3) unfolding r d node_block_rates by simp
  have sub: "real (unat (c - p)) = real (unat c) - real (unat p)" if "p \<le> c" for c p :: u64
  proof -
    from that have "unat p \<le> unat c" by (simp only: word_le_nat_alt)
    moreover from that have "unat (c - p) = unat c - unat p" by (rule unat_sub)
    ultimately show ?thesis by (simp only: of_nat_diff)
  qed
  have 1: "0 < time_first env - prev_time st \<longrightarrow>
            tcp_retrans_rate m' =
              Finite (real_of_int ((int (unat (retrans_count nd)) - int (unat (prev_retrans st)))
                                   mod 2 ^ 64) / ?e)
          \<and> drop_rate m' =
              Finite (real_of_int ((int (unat (drop_count nd)) - int (unat (prev_drops st)))
                                   mod 2 ^ 64) / ?e)"
    using pos by (simp only: unat_sub_mod_u64) blast
  have 2: "0 < time_first env - prev_time st \<and> prev_retrans st \<le> retrans_count nd \<longrightarrow>
            tcp_retrans_rate m' =
              Finite ((real (unat (retrans_count nd)) - real (unat (prev_retrans st))) / ?e)"
  proof
    assume a: "0 < time_first env - prev_time st \<and> prev_retrans st \<le> retrans_count nd"
    then have "tcp_retrans_rate m' =
        Finite (real (unat (retrans_count nd - prev_retrans st)) / ?e)" using pos by blast
    with a show "tcp_retrans_rate m' =
              Finite ((real (unat (retrans_count nd)) - real (unat (prev_retrans st))) / ?e)"
      by (simp only: sub)
  qed
  have 3: "0 < time_first env - prev_time st \<and> prev_drops st \<le> drop_count nd \<longrightarrow>
            drop_rate m' =
              Finite ((real (unat (drop_count nd)) - real (unat (prev_drops st))) / ?e)"
  proof
    assume a: "0 < time_first env - prev_time st \<and> prev_drops st \<le> drop_count nd"
    then have "drop_rate m' = Finite (real (unat (drop_count nd - prev_drops st)) / ?e)"
      using pos by blast
    with a show "drop_rate m' =
              Finite ((real (unat (drop_count nd)) - real (unat (prev_drops st))) / ?e)"
      by (simp only: sub)
  qed
  have 5: "0 < time_first env - prev_time st \<and> retrans_count nd = prev_retrans st \<longrightarrow>
            tcp_retrans_rate m' = Finite 0"
    using pos by auto
  have 6: "0 < time_first env - prev_time st \<and> drop_count nd = prev_drops st \<longrightarrow>
            drop_rate m' = Finite 0"
    using pos by auto
  from 1 2 3 nonpos 5 6 show ?thesis by blast
qed

theorem rate_engine_witness:
  "0 < prev_time (previous_call 10 7)
   \<and> 0 < time_first (call_at 105 60 7) - prev_time (previous_call 10 7)
   \<and> time_first (call_at 100 60 7) - prev_time (previous_call 10 7) \<le> 0
   \<and> prev_retrans (previous_call 10 7) \<le> 60
   \<and> update_metrics (call_at 105 60 7) 0 (previous_call 10 7, initial_metrics ''edge'') =
       Inr (\<lparr>prev_retrans = 60, prev_drops = 7, prev_time = 105\<rparr>,
            (initial_metrics ''edge'')
              \<lparr>tcp_retrans_rate := Finite 10, drop_rate := Finite 0,
               cpu_utilization := Finite 0, last_update := 105\<rparr>)
   \<and> update_metrics (call_at 100 60 7) 0
         (previous_call 10 7, (initial_metrics ''edge'')\<lparr>tcp_retrans_rate := Finite 3\<rparr>) =
       Inr (\<lparr>prev_retrans = 60, prev_drops = 7, prev_time = 100\<rparr>,
            (initial_metrics ''edge'')
              \<lparr>tcp_retrans_rate := Finite 3, cpu_utilization := Finite 0,
               last_update := 100\<rparr>)
   \<and> update_metrics (call_at 105 10 7) 0
         (previous_call 10 7, (initial_metrics ''edge'')\<lparr>tcp_retrans_rate := Finite 3\<rparr>) =
       Inr (\<lparr>prev_retrans = 10, prev_drops = 7, prev_time = 105\<rparr>,
            (initial_metrics ''edge'')
              \<lparr>tcp_retrans_rate := Finite 0, drop_rate := Finite 0,
               cpu_utilization := Finite 0, last_update := 105\<rparr>)
   \<and> update_metrics (call_at 105 60 3) 0 (previous_call 10 7, initial_metrics ''edge'') =
       Inr (\<lparr>prev_retrans = 60, prev_drops = 3, prev_time = 105\<rparr>,
            (initial_metrics ''edge'')
              \<lparr>tcp_retrans_rate := Finite 10,
               drop_rate := Finite (real_of_int ((3 - 7) mod 2 ^ 64) / 5),
               cpu_utilization := Finite 0, last_update := 105\<rparr>)"
proof -
  have p: "0 < prev_time (previous_call 10 7)" by (simp add: previous_call_def)
  have e1: "0 < time_first (call_at 105 60 7) - prev_time (previous_call 10 7)"
    by (simp add: call_at_def previous_call_def)
  have e2: "time_first (call_at 100 60 7) - prev_time (previous_call 10 7) \<le> 0"
    by (simp add: call_at_def previous_call_def)
  have le: "prev_retrans (previous_call 10 7) \<le> 60" by (simp add: previous_call_def)
  have u1: "update_metrics (call_at 105 60 7) 0 (previous_call 10 7, initial_metrics ''edge'') =
       Inr (\<lparr>prev_retrans = 60, prev_drops = 7, prev_time = 105\<rparr>,
            (initial_metrics ''edge'')
              \<lparr>tcp_retrans_rate := Finite 10, drop_rate := Finite 0,
               cpu_utilization := Finite 0, last_update := 105\<rparr>)"
    by (simp add: call_at_update)
  have u2: "update_metrics (call_at 100 60 7) 0
         (previous_call 10 7, (initial_metrics ''edge'')\<lparr>tcp_retrans_rate := Finite 3\<rparr>) =
       Inr (\<lparr>prev_retrans = 60, prev_drops = 7, prev_time = 100\<rparr>,
            (initial_metrics ''edge'')
              \<lparr>tcp_retrans_rate := Finite 3, cpu_utilization := Finite 0,
               last_update := 100\<rparr>)"
    by (simp add: call_at_update)
  have u3: "update_metrics (call_at 105 10 7) 0
         (previous_call 10 7, (initial_metrics ''edge'')\<lparr>tcp_retrans_rate := Finite 3\<rparr>) =
       Inr (\<lparr>prev_retrans = 10, prev_drops = 7, prev_time = 105\<rparr>,
            (initial_metrics ''edge'')
              \<lparr>tcp_retrans_rate := Finite 0, drop_rate := Finite 0,
               cpu_utilization := Finite 0, last_update := 105\<rparr>)"
    by (simp add: call_at_update initial_metrics_def)
  have u4: "update_metrics (call_at 105 60 3) 0 (previous_call 10 7, initial_metrics ''edge'') =
       Inr (\<lparr>prev_retrans = 60, prev_drops = 3, prev_time = 105\<rparr>,
            (initial_metrics ''edge'')
              \<lparr>tcp_retrans_rate := Finite 10,
               drop_rate := Finite (real_of_int ((3 - 7) mod 2 ^ 64) / 5),
               cpu_utilization := Finite 0, last_update := 105\<rparr>)"
    by (simp add: call_at_update)
  from rate_engine [OF u1 call_at_lookup p] rate_engine [OF u2 call_at_lookup p]
    rate_engine [OF u3 call_at_lookup p] rate_engine [OF u4 call_at_lookup p]
    p e1 e2 le u1 u2 u3 u4
  show ?thesis by simp
qed

text \<open>
  C4 as the specification words it fails: five seconds after a call that saw 10
  retransmissions and 7 drops, with 60 retransmissions and 3 drops in the table, the
  retransmission rate is \<open>(60 - 10) / 5 = 10\<close>, but the drop rate is \<open>(2^64 - 4) / 5\<close> and
  not \<open>(3 - 7) / 5\<close>.
\<close>

theorem rate_engine_counterexample:
  "0 < prev_time (previous_call 10 7)
   \<and> 0 < time_first (call_at 105 60 3) - prev_time (previous_call 10 7)
   \<and> update_metrics (call_at 105 60 3) 0 (previous_call 10 7, initial_metrics ''edge'') =
       Inr (\<lparr>prev_retrans = 60, prev_drops = 3, prev_time = 105\<rparr>,
            (initial_metrics ''edge'')
              \<lparr>tcp_retrans_rate := Finite 10,
               drop_rate := Finite (18446744073709551612 / 5),
               cpu_utilization := Finite 0, last_update := 105\<rparr>)
   \<and> Finite (18446744073709551612 / 5) \<noteq> Finite ((3 - 7) / 5)"
proof -
  have p: "0 < prev_time (previous_call 10 7)" by (simp add: previous_call_def)
  have e: "0 < time_first (call_at 105 60 3) - prev_time (previous_call 10 7)"
    by (simp add: call_at_def previous_call_def)
  have u: "update_metrics (call_at 105 60 3) 0 (previous_call 10 7, initial_metrics ''edge'') =
       Inr (\<lparr>prev_retrans = 60, prev_drops = 3, prev_time = 105\<rparr>,
            (initial_metrics ''edge'')
              \<lparr>tcp_retrans_rate := Finite 10,
               drop_rate := Finite (18446744073709551612 / 5),
               cpu_utilization := Finite 0, last_update := 105\<rparr>)"
    by (simp add: call_at_update)
  have n: "Finite (18446744073709551612 / 5) \<noteq> Finite ((3 - 7) / 5)" by simp
  from p e u n show ?thesis by blast
qed

lemma unat_sub_wrap_u64:
  fixes a b :: u64
  assumes "a < b"
  shows "real (unat (a - b)) = 2 ^ 64 + real (unat a) - real (unat b)"
proof -
  from assms have lt: "unat a < unat b" by (simp add: word_less_nat_alt)
  have "unat b < 2 ^ 64" using unsigned_less [of b] by simp
  from lt have "unat (a - b) = unat a + 2 ^ 64 - unat b"
    by (simp add: unat_sub_if_size word_size)
  moreover have "unat b \<le> unat a + 2 ^ 64" using \<open>unat b < 2 ^ 64\<close> by simp
  ultimately show ?thesis by (simp add: of_nat_diff)
qed

text \<open>
  C5 (as the program has it).  When a counter is smaller than at the previous call and
  \<open>elapsed > 0\<close>, the \<^verbatim>\<open>__u64\<close> subtraction wraps around: the rate is
  \<open>(2^64 + current - previous) / elapsed\<close>, a positive number.
\<close>

theorem rate_counter_decrease:
  assumes "update_metrics env nid (st, m) = Inr (st', m')"
    and "node_lookup env nid = Some nd"
    and "0 < prev_time st"
    and "0 < time_first env - prev_time st"
  shows "(retrans_count nd < prev_retrans st \<longrightarrow>
            tcp_retrans_rate m' =
              Finite ((2 ^ 64 + real (unat (retrans_count nd)) - real (unat (prev_retrans st)))
                      / real_of_int (time_first env - prev_time st))
          \<and> 0 < (2 ^ 64 + real (unat (retrans_count nd)) - real (unat (prev_retrans st)))
                      / real_of_int (time_first env - prev_time st))
       \<and> (drop_count nd < prev_drops st \<longrightarrow>
            drop_rate m' =
              Finite ((2 ^ 64 + real (unat (drop_count nd)) - real (unat (prev_drops st)))
                      / real_of_int (time_first env - prev_time st))
          \<and> 0 < (2 ^ 64 + real (unat (drop_count nd)) - real (unat (prev_drops st)))
                      / real_of_int (time_first env - prev_time st))"
proof -
  from update_metrics_Inr [OF assms(1)] assms(2)
  have r: "tcp_retrans_rate m' = tcp_retrans_rate (snd (node_block nd (time_first env) (st, m)))"
    and d: "drop_rate m' = drop_rate (snd (node_block nd (time_first env) (st, m)))"
    by simp_all
  have pos: "0 < real (unat w)" if "w \<noteq> 0" for w :: u64
  proof -
    from that have "0 < unat w" by (simp add: unat_gt_0)
    then show ?thesis by (simp only: of_nat_0_less_iff)
  qed
  have p1: "0 < 2 ^ 64 + real (unat a) - real (unat b)" if "a < b" for a b :: u64
  proof -
    from that have "a - b \<noteq> 0" by auto
    from pos [OF this] show ?thesis by (simp only: unat_sub_wrap_u64 [OF that])
  qed
  let ?e = "real_of_int (time_first env - prev_time st)"
  have e: "0 < ?e" using assms(4) by simp
  have R: "retrans_count nd < prev_retrans st \<longrightarrow>
            tcp_retrans_rate m' =
              Finite ((2 ^ 64 + real (unat (retrans_count nd)) - real (unat (prev_retrans st))) / ?e)
          \<and> 0 < (2 ^ 64 + real (unat (retrans_count nd)) - real (unat (prev_retrans st))) / ?e"
  proof
    assume lt: "retrans_count nd < prev_retrans st"
    have "tcp_retrans_rate m' =
            Finite (real (unat (retrans_count nd - prev_retrans st)) / ?e)"
      using assms(3,4) unfolding r node_block_rates by simp
    then have 1: "tcp_retrans_rate m' =
        Finite ((2 ^ 64 + real (unat (retrans_count nd)) - real (unat (prev_retrans st))) / ?e)"
      by (simp only: unat_sub_wrap_u64 [OF lt])
    have 2: "0 < (2 ^ 64 + real (unat (retrans_count nd)) - real (unat (prev_retrans st))) / ?e"
      using p1 [OF lt] e by (rule divide_pos_pos)
    from 1 2 show "tcp_retrans_rate m' =
              Finite ((2 ^ 64 + real (unat (retrans_count nd)) - real (unat (prev_retrans st))) / ?e)
          \<and> 0 < (2 ^ 64 + real (unat (retrans_count nd)) - real (unat (prev_retrans st))) / ?e"
      by (rule conjI)
  qed
  have D: "drop_count nd < prev_drops st \<longrightarrow>
            drop_rate m' =
              Finite ((2 ^ 64 + real (unat (drop_count nd)) - real (unat (prev_drops st))) / ?e)
          \<and> 0 < (2 ^ 64 + real (unat (drop_count nd)) - real (unat (prev_drops st))) / ?e"
  proof
    assume lt: "drop_count nd < prev_drops st"
    have "drop_rate m' = Finite (real (unat (drop_count nd - prev_drops st)) / ?e)"
      using assms(3,4) unfolding d node_block_rates by simp
    then have 1: "drop_rate m' =
        Finite ((2 ^ 64 + real (unat (drop_count nd)) - real (unat (prev_drops st))) / ?e)"
      by (simp only: unat_sub_wrap_u64 [OF lt])
    have 2: "0 < (2 ^ 64 + real (unat (drop_count nd)) - real (unat (prev_drops st))) / ?e"
      using p1 [OF lt] e by (rule divide_pos_pos)
    from 1 2 show "drop_rate m' =
              Finite ((2 ^ 64 + real (unat (drop_count nd)) - real (unat (prev_drops st))) / ?e)
          \<and> 0 < (2 ^ 64 + real (unat (drop_count nd)) - real (unat (prev_drops st))) / ?e"
      by (rule conjI)
  qed
  from R D show ?thesis by (rule conjI)
qed

theorem rate_counter_decrease_witness:
  "0 < prev_time (previous_call 60 7)
   \<and> 0 < time_first (call_at 105 10 3) - prev_time (previous_call 60 7)
   \<and> retrans_count (new_metrics\<lparr>retrans_count := 10, drop_count := 3\<rparr>)
       < prev_retrans (previous_call 60 7)
   \<and> drop_count (new_metrics\<lparr>retrans_count := 10, drop_count := 3\<rparr>)
       < prev_drops (previous_call 60 7)
   \<and> update_metrics (call_at 105 10 3) 0 (previous_call 60 7, initial_metrics ''edge'') =
       Inr (\<lparr>prev_retrans = 10, prev_drops = 3, prev_time = 105\<rparr>,
            (initial_metrics ''edge'')
              \<lparr>tcp_retrans_rate := Finite (18446744073709551566 / 5),
               drop_rate := Finite (18446744073709551612 / 5),
               cpu_utilization := Finite 0, last_update := 105\<rparr>)"
proof -
  have u: "update_metrics (call_at 105 10 3) 0 (previous_call 60 7, initial_metrics ''edge'') =
       Inr (\<lparr>prev_retrans = 10, prev_drops = 3, prev_time = 105\<rparr>,
            (initial_metrics ''edge'')
              \<lparr>tcp_retrans_rate := Finite (18446744073709551566 / 5),
               drop_rate := Finite (18446744073709551612 / 5),
               cpu_utilization := Finite 0, last_update := 105\<rparr>)"
    by (simp add: call_at_update)
  have p: "0 < prev_time (previous_call 60 7)" by (simp add: previous_call_def)
  have e: "0 < time_first (call_at 105 10 3) - prev_time (previous_call 60 7)"
    by (simp add: call_at_def previous_call_def)
  have d: "retrans_count (new_metrics\<lparr>retrans_count := 10, drop_count := 3\<rparr>)
             < prev_retrans (previous_call 60 7)"
    "drop_count (new_metrics\<lparr>retrans_count := 10, drop_count := 3\<rparr>)
             < prev_drops (previous_call 60 7)"
    by (simp_all add: previous_call_def)
  from rate_counter_decrease [OF u call_at_lookup p e] d u p e show ?thesis by simp
qed

text \<open>
  C5 as the specification words it fails: with the count back from 60 to 10 over five
  seconds, the rate is \<open>(2^64 - 50) / 5\<close>, not the negative \<open>-10\<close>.
\<close>

theorem rate_counter_decrease_counterexample:
  "update_metrics (call_at 105 10 7) 0 (previous_call 60 7, initial_metrics ''edge'') =
     Inr (\<lparr>prev_retrans = 10, prev_drops = 7, prev_time = 105\<rparr>,
          (initial_metrics ''edge'')
            \<lparr>tcp_retrans_rate := Finite (18446744073709551566 / 5), drop_rate := Finite 0,
             cpu_utilization := Finite 0, last_update := 105\<rparr>)
   \<and> \<not> (18446744073709551566 / 5 :: real) < 0"
  by (simp add: update_metrics_def node_block_def call_at_def previous_call_def
      new_metrics_def get_cpu_utilization_def initial_metrics_def Let_def)

subsection \<open>A tick that finds no table entry\<close>

lemma update_metrics_no_hist:
  "hist_lookup env nid = None \<Longrightarrow>
   update_metrics env nid sm =
     Inr (fst (case node_lookup env nid of None \<Rightarrow> sm
               | Some nd \<Rightarrow> node_block nd (time_first env) sm),
          (snd (case node_lookup env nid of None \<Rightarrow> sm
               | Some nd \<Rightarrow> node_block nd (time_first env) sm))
            \<lparr>cpu_utilization := get_cpu_utilization (stat env),
             last_update := time_last env\<rparr>)"
  by (simp add: update_metrics_def Let_def)

lemma update_metrics_hist_stale:
  assumes "update_metrics env nid sm = Inr sm'" "hist_lookup env nid = None"
  shows "rtt_p50_ms (snd sm') = rtt_p50_ms (snd sm) \<and> rtt_p99_ms (snd sm') = rtt_p99_ms (snd sm)"
  using assms
  by (auto simp: update_metrics_def Let_def node_block_def split: option.splits)

lemma update_metrics_Inl:
  "update_metrics env nid sm = Inl e \<Longrightarrow> hist_lookup env nid \<noteq> None"
  by (auto simp: update_metrics_def Let_def split: option.splits)

lemma update_metrics_node_stale:
  assumes "update_metrics env nid sm = Inr sm'" "node_lookup env nid = None"
  shows "fst sm' = fst sm \<and> tcp_retrans_rate (snd sm') = tcp_retrans_rate (snd sm)
    \<and> drop_rate (snd sm') = drop_rate (snd sm)
    \<and> runqlat_p95_ms (snd sm') = runqlat_p95_ms (snd sm)"
  using assms
  by (auto simp: update_metrics_def Let_def hist_block_def split: option.splits sum.splits)

lemma update_metrics_fresh:
  assumes "update_metrics env nid sm = Inr sm'"
  shows "cpu_utilization (snd sm') = get_cpu_utilization (stat env)
    \<and> last_update (snd sm') = time_last env"
  using assms
  by (auto simp: update_metrics_def Let_def split: option.splits sum.splits)

text \<open>
  C6 (as the program has it).  A pass of the loop that is a tick always exports: all six
  gauges are printed from the metrics as they stand after \<^verbatim>\<open>update_metrics\<close>, with the
  CPU utilization and the time stamp of this tick, and the loop goes on.  When the lookup of the node's counters fails, the two rates, the run queue
  latency and the baseline of the rates stay as the previous tick left them; when the
  lookup of the histogram fails, so do the two percentiles.  (The pass is undefined only
  when a histogram was found and its percentile is.)
\<close>

theorem missing_snapshot_pass:
  assumes "\<not> exiting env" and "0 \<le> poll_return env"
    and "5 \<le> now env - last_metrics_update s"
  shows "case loop_pass env s of
           Inl e \<Rightarrow> hist_lookup (update env) 0 \<noteq> None
         | Inr r \<Rightarrow>
             (\<exists>s'. r = Again s'
                \<and> printed s' = printed s @ concat (map handle_event (polled env))
                                @ export_prometheus_metrics (metrics s')
                \<and> cpu_utilization (metrics s') = get_cpu_utilization (stat (update env))
                \<and> last_update (metrics s') = time_last (update env)
                \<and> (node_lookup (update env) 0 = None \<longrightarrow>
                     statics s' = statics s
                     \<and> tcp_retrans_rate (metrics s') = tcp_retrans_rate (metrics s)
                     \<and> drop_rate (metrics s') = drop_rate (metrics s)
                     \<and> runqlat_p95_ms (metrics s') = runqlat_p95_ms (metrics s))
                \<and> (hist_lookup (update env) 0 = None \<longrightarrow>
                     rtt_p50_ms (metrics s') = rtt_p50_ms (metrics s)
                     \<and> rtt_p99_ms (metrics s') = rtt_p99_ms (metrics s)))"
proof (cases "update_metrics (update env) 0 (statics s, metrics s)")
  case (Inl e)
  from update_metrics_Inl [OF this] have "hist_lookup (update env) 0 \<noteq> None" .
  with Inl assms show ?thesis
    by (simp add: loop_pass_def tick_def Let_def EINTR_def)
next
  case (Inr sm)
  note n = update_metrics_node_stale [OF Inr]
  note h = update_metrics_hist_stale [OF Inr]
  note f = update_metrics_fresh [OF Inr]
  from Inr assms n h f show ?thesis
    by (simp add: loop_pass_def tick_def Let_def EINTR_def)
qed

theorem missing_snapshot_pass_witness:
  "\<not> exiting pass_without_entries \<and> 0 \<le> poll_return pass_without_entries
   \<and> 5 \<le> now pass_without_entries - last_metrics_update state_after_a_tick
   \<and> node_lookup (update pass_without_entries) 0 = None
   \<and> hist_lookup (update pass_without_entries) 0 = None
   \<and> (case loop_pass pass_without_entries state_after_a_tick of
         Inl e \<Rightarrow> False
       | Inr r \<Rightarrow>
           r = Again (state_after_a_tick
                        \<lparr>metrics := (metrics state_after_a_tick)\<lparr>last_update := 110\<rparr>,
                         last_metrics_update := 110,
                         printed := export_prometheus_metrics
                                      ((metrics state_after_a_tick)\<lparr>last_update := 110\<rparr>)\<rparr>))"
proof -
  have a: "\<not> exiting pass_without_entries" by (simp add: pass_without_entries_def)
  have b: "0 \<le> poll_return pass_without_entries" by (simp add: pass_without_entries_def)
  have c: "5 \<le> now pass_without_entries - last_metrics_update state_after_a_tick"
    by (simp add: pass_without_entries_def state_after_a_tick_def)
  have d: "loop_pass pass_without_entries state_after_a_tick =
           Inr (Again (state_after_a_tick
                        \<lparr>metrics := (metrics state_after_a_tick)\<lparr>last_update := 110\<rparr>,
                         last_metrics_update := 110,
                         printed := export_prometheus_metrics
                                      ((metrics state_after_a_tick)\<lparr>last_update := 110\<rparr>)\<rparr>))"
    by (simp add: loop_pass_def tick_def update_metrics_def pass_without_entries_def
        state_after_a_tick_def get_cpu_utilization_def initial_metrics_def EINTR_def Let_def)
  have e: "node_lookup (update pass_without_entries) 0 = None"
    "hist_lookup (update pass_without_entries) 0 = None"
    by (simp_all add: pass_without_entries_def)
  from missing_snapshot_pass [OF a b c] a b c d e show ?thesis by simp
qed

text \<open>
  C6 as the specification words it fails: in the pass above neither entry of node 0 can be
  read, and the exporter still receives the nineteen lines of the six gauges, with the
  percentile and the rate of the earlier tick.
\<close>

theorem missing_snapshot_counterexample:
  "node_lookup (update pass_without_entries) 0 = None
   \<and> hist_lookup (update pass_without_entries) 0 = None
   \<and> loop_pass pass_without_entries state_after_a_tick =
       Inr (Again (state_after_a_tick
                    \<lparr>metrics := (metrics state_after_a_tick)\<lparr>last_update := 110\<rparr>,
                     last_metrics_update := 110,
                     printed := export_prometheus_metrics
                                  ((metrics state_after_a_tick)\<lparr>last_update := 110\<rparr>)\<rparr>))
   \<and> length (export_prometheus_metrics ((metrics state_after_a_tick)\<lparr>last_update := 110\<rparr>)) = 19
   \<and> export_prometheus_metrics ((metrics state_after_a_tick)\<lparr>last_update := 110\<rparr>) ! 2 =
       Sample ''ebpf_rtt_p50_milliseconds'' ''edge'' (Finite 4)
   \<and> export_prometheus_metrics ((metrics state_after_a_tick)\<lparr>last_update := 110\<rparr>) ! 8 =
       Sample ''ebpf_tcp_retrans_rate'' ''edge'' (Finite 10)"
  by (simp add: loop_pass_def tick_def update_metrics_def pass_without_entries_def
      state_after_a_tick_def get_cpu_utilization_def initial_metrics_def EINTR_def Let_def
      export_prometheus_metrics_def)

subsection \<open>CPU utilization\<close>

lemma busy_le_total:
  fixes user nice system idle iowait irq softirq :: u64
  assumes "unat user + unat nice + unat system + unat idle + unat iowait + unat irq
           + unat softirq < 2 ^ 64"
  shows "unat (user + nice + system + idle + iowait + irq + softirq) =
         unat user + unat nice + unat system + unat idle + unat iowait + unat irq + unat softirq"
    and "unat (user + nice + system + idle + iowait + irq + softirq - idle - iowait) =
         unat user + unat nice + unat system + unat irq + unat softirq"
proof -
  show t: "unat (user + nice + system + idle + iowait + irq + softirq) =
         unat user + unat nice + unat system + unat idle + unat iowait + unat irq + unat softirq"
    using assms by (simp add: unat_word_ariths)
  have eq: "user + nice + system + idle + iowait + irq + softirq - idle - iowait =
        user + nice + system + irq + softirq" by simp
  have u: "unat (user + nice + system + irq + softirq) =
         unat user + unat nice + unat system + unat irq + unat softirq"
    using assms by (simp add: unat_word_ariths)
  show "unat (user + nice + system + idle + iowait + irq + softirq - idle - iowait) =
         unat user + unat nice + unat system + unat irq + unat softirq"
    unfolding eq by (rule u)
qed

lemma busy_percent_nonzero:
  "tot \<noteq> 0 \<Longrightarrow>
   busy_percent busy tot = Finite (real (unat busy) / real (unat tot) * 100)"
  by (simp add: busy_percent_def)

text \<open>
  C8 (as the program has it).  \<^verbatim>\<open>get_cpu_utilization\<close> returns 0 when \<^verbatim>\<open>/proc/stat\<close> cannot
  be opened or its first line does not give seven numbers.  Otherwise it works from this
  one reading of the cumulative counters alone: when their sum is not 0 and fits 64 bits,
  the result is the share of the sum that is neither idle nor iowait, times 100, a number
  between 0 and 100.
\<close>

theorem get_cpu_utilization_single_sample:
  fixes user nice system idle iowait irq softirq :: u64
  shows "get_cpu_utilization Open_failed = Finite 0
   \<and> (length vs \<noteq> 7 \<longrightarrow> get_cpu_utilization (Scanned vs) = Finite 0)
   \<and> (unat user + unat nice + unat system + unat idle + unat iowait + unat irq + unat softirq
        < 2 ^ 64
      \<and> 0 < unat user + unat nice + unat system + unat idle + unat iowait + unat irq
            + unat softirq \<longrightarrow>
        get_cpu_utilization (Scanned [user, nice, system, idle, iowait, irq, softirq]) =
          Finite (real (unat user + unat nice + unat system + unat irq + unat softirq)
                  / real (unat user + unat nice + unat system + unat idle + unat iowait
                          + unat irq + unat softirq) * 100)
        \<and> 0 \<le> real (unat user + unat nice + unat system + unat irq + unat softirq)
                  / real (unat user + unat nice + unat system + unat idle + unat iowait
                          + unat irq + unat softirq) * 100
        \<and> real (unat user + unat nice + unat system + unat irq + unat softirq)
                  / real (unat user + unat nice + unat system + unat idle + unat iowait
                          + unat irq + unat softirq) * 100 \<le> 100)"
proof -
  have 1: "get_cpu_utilization Open_failed = Finite 0"
    by (simp add: get_cpu_utilization_def)
  have 2: "length vs \<noteq> 7 \<longrightarrow> get_cpu_utilization (Scanned vs) = Finite 0"
    by (simp add: get_cpu_utilization_def)
  let ?busy = "unat user + unat nice + unat system + unat irq + unat softirq"
  let ?tot = "unat user + unat nice + unat system + unat idle + unat iowait + unat irq
              + unat softirq"
  have 3: "?tot < 2 ^ 64 \<and> 0 < ?tot \<longrightarrow>
        get_cpu_utilization (Scanned [user, nice, system, idle, iowait, irq, softirq]) =
          Finite (real ?busy / real ?tot * 100)
        \<and> 0 \<le> real ?busy / real ?tot * 100 \<and> real ?busy / real ?tot * 100 \<le> 100"
  proof
    assume a: "?tot < 2 ^ 64 \<and> 0 < ?tot"
    then have lt: "?tot < 2 ^ 64" and pos: "0 < ?tot" by simp_all
    note b = busy_le_total [OF lt]
    have nz: "user + nice + system + idle + iowait + irq + softirq \<noteq> 0"
      using pos b(1) by (metis less_numeral_extra(3) unat_0)
    have "get_cpu_utilization (Scanned [user, nice, system, idle, iowait, irq, softirq]) =
          busy_percent (user + nice + system + idle + iowait + irq + softirq - idle - iowait)
            (user + nice + system + idle + iowait + irq + softirq)"
      by (simp add: get_cpu_utilization_def Let_def)
    also have "\<dots> =
          Finite (real (unat (user + nice + system + idle + iowait + irq + softirq - idle - iowait))
                  / real (unat (user + nice + system + idle + iowait + irq + softirq)) * 100)"
      by (rule busy_percent_nonzero [OF nz])
    finally have v: "get_cpu_utilization (Scanned [user, nice, system, idle, iowait, irq, softirq]) =
          Finite (real ?busy / real ?tot * 100)"
      by (simp only: b)
    have "?busy \<le> ?tot" by simp
    then have "real ?busy \<le> real ?tot" by (simp only: of_nat_le_iff)
    moreover from pos have rpos: "0 < real ?tot" by (simp only: of_nat_0_less_iff)
    ultimately have le: "real ?busy / real ?tot \<le> 1"
      by (simp only: divide_le_eq_1_pos)
    have ge: "0 \<le> real ?busy / real ?tot"
      by (intro divide_nonneg_nonneg of_nat_0_le_iff)
    define x where "x = real ?busy / real ?tot"
    from le ge have "0 \<le> x * 100 \<and> x * 100 \<le> 100" unfolding x_def [symmetric] by simp
    with v show "get_cpu_utilization (Scanned [user, nice, system, idle, iowait, irq, softirq]) =
          Finite (real ?busy / real ?tot * 100)
        \<and> 0 \<le> real ?busy / real ?tot * 100 \<and> real ?busy / real ?tot * 100 \<le> 100"
      unfolding x_def by (intro conjI) blast+
  qed
  from 1 2 3 show ?thesis by blast
qed

theorem get_cpu_utilization_single_sample_witness:
  "length [1, 2, 3 :: u64] \<noteq> 7 \<and> get_cpu_utilization (Scanned [1, 2, 3]) = Finite 0
   \<and> unat (1::u64) + unat (0::u64) + unat (0::u64) + unat (1::u64) + unat (0::u64)
       + unat (0::u64) + unat (0::u64) < 2 ^ 64
   \<and> 0 < unat (1::u64) + unat (0::u64) + unat (0::u64) + unat (1::u64) + unat (0::u64)
       + unat (0::u64) + unat (0::u64)
   \<and> get_cpu_utilization (Scanned [1, 0, 0, 1, 0, 0, 0]) = Finite 50"
proof -
  have a: "length [1, 2, 3 :: u64] \<noteq> 7" by simp
  have b: "unat (1::u64) + unat (0::u64) + unat (0::u64) + unat (1::u64) + unat (0::u64)
       + unat (0::u64) + unat (0::u64) < 2 ^ 64" by simp
  have c: "0 < unat (1::u64) + unat (0::u64) + unat (0::u64) + unat (1::u64) + unat (0::u64)
       + unat (0::u64) + unat (0::u64)" by simp
  from get_cpu_utilization_single_sample [of "[1, 2, 3]" 1 0 0 1 0 0 0] a b c
  show ?thesis by simp
qed

text \<open>
  C8 as the specification words it fails: the function keeps no earlier sample, so a first
  call that reads one busy and one idle tick returns 50, not 0.
\<close>

theorem get_cpu_utilization_first_call_counterexample:
  "get_cpu_utilization (Scanned [1, 0, 0, 1, 0, 0, 0]) = Finite 50
   \<and> get_cpu_utilization (Scanned [1, 0, 0, 1, 0, 0, 0]) \<noteq> Finite 0"
  by (simp add: get_cpu_utilization_def busy_percent_def)

subsection \<open>The percentile\<close>

text \<open>
  What holds for every histogram and every rank between 0 and 100: the total is the sum of
  the 64 slots; an empty total gives 0; otherwise the target is the integral part of
  \<open>total * p / 100\<close>, the walk stops at the first bucket whose running count reaches it, and
  the result is that bucket's value, \<open>2^j\<close> below bucket 31.  The bucket at which the walk
  stops does not decrease when the rank grows, so the results are ordered wherever both
  are defined.
\<close>

lemma total_loop_step:
  "i < MAX_SLOTS \<Longrightarrow> total_loop h i r = total_loop h (i + 1) (r + slots h i)"
  by (subst total_loop.simps) simp

lemma total_loop_end: "\<not> i < MAX_SLOTS \<Longrightarrow> total_loop h i r = r"
  by (subst total_loop.simps) simp

lemma running_after_self: "running_after h i r i = r + slots h i"
  by (simp add: running_after_def)

lemma running_after_head:
  "i < k \<Longrightarrow> running_after h i r k = running_after h (i + 1) (r + slots h i) k"
  unfolding running_after_def by (subst upt_rec) (simp add: add.assoc)

lemma bucket_loop_first:
  "i < MAX_SLOTS \<Longrightarrow> t \<le> total_loop h i r \<Longrightarrow>
   \<exists>j. i \<le> j \<and> j < MAX_SLOTS \<and> bucket_loop h t i r = bucket_value j
     \<and> t \<le> running_after h i r j
     \<and> (\<forall>k. i \<le> k \<and> k < j \<longrightarrow> running_after h i r k < t)"
proof (induction h t i r rule: bucket_loop.induct)
  case (1 h t i r)
  show ?case
  proof (cases "t \<le> r + slots h i")
    case True
    with "1.prems" have "bucket_loop h t i r = bucket_value i"
      by (subst bucket_loop.simps) simp
    with "1.prems" True show ?thesis by (intro exI [of _ i]) (auto simp: running_after_self)
  next
    case False
    with "1.prems" have step: "bucket_loop h t i r = bucket_loop h t (i + 1) (r + slots h i)"
      by (subst bucket_loop.simps) simp
    from "1.prems" have tl: "t \<le> total_loop h (i + 1) (r + slots h i)"
      by (simp add: total_loop_step)
    have lt: "i + 1 < MAX_SLOTS"
    proof (rule ccontr)
      assume "\<not> i + 1 < MAX_SLOTS"
      then have "total_loop h (i + 1) (r + slots h i) = r + slots h i"
        by (rule total_loop_end)
      with tl False show False by simp
    qed
    from "1.IH" [OF "1.prems"(1) False lt tl]
    obtain j where j: "i + 1 \<le> j" "j < MAX_SLOTS"
      "bucket_loop h t (i + 1) (r + slots h i) = bucket_value j"
      "t \<le> running_after h (i + 1) (r + slots h i) j"
      "\<forall>k. i + 1 \<le> k \<and> k < j \<longrightarrow> running_after h (i + 1) (r + slots h i) k < t"
      by blast
    from j(1) have ij: "i < j" by simp
    have reach: "t \<le> running_after h i r j"
      using j(4) by (simp only: running_after_head [OF ij])
    have before: "running_after h i r k < t" if "i \<le> k" "k < j" for k
    proof (cases "k = i")
      case True
      with False show ?thesis by (simp add: running_after_self)
    next
      case ne: False
      with that have ik: "i < k" by simp
      then have "i + 1 \<le> k" by simp
      with j(5) that have "running_after h (i + 1) (r + slots h i) k < t" by blast
      then show ?thesis by (simp only: running_after_head [OF ik])
    qed
    from ij have "i \<le> j" by simp
    with j(2) j(3) step reach before show ?thesis by (intro exI [of _ j]) simp
  qed
qed

lemma bucket_loop_mono:
  "i < MAX_SLOTS \<Longrightarrow> t1 \<le> t2 \<Longrightarrow> t2 \<le> total_loop h i r \<Longrightarrow>
   \<exists>j1 j2. j1 \<le> j2 \<and> j2 < MAX_SLOTS
     \<and> bucket_loop h t1 i r = bucket_value j1 \<and> bucket_loop h t2 i r = bucket_value j2"
proof (induction h t2 i r rule: bucket_loop.induct)
  case (1 h t2 i r)
  show ?case
  proof (cases "t2 \<le> r + slots h i")
    case True
    with "1.prems" have "t1 \<le> r + slots h i" by simp
    with True "1.prems" have "bucket_loop h t1 i r = bucket_value i"
      "bucket_loop h t2 i r = bucket_value i"
      by (subst bucket_loop.simps, simp)+
    with "1.prems" show ?thesis by blast
  next
    case False
    with "1.prems" have step2: "bucket_loop h t2 i r = bucket_loop h t2 (i + 1) (r + slots h i)"
      by (subst bucket_loop.simps) simp
    from "1.prems" have tl: "t2 \<le> total_loop h (i + 1) (r + slots h i)"
      by (simp add: total_loop_step)
    have lt: "i + 1 < MAX_SLOTS"
    proof (rule ccontr)
      assume "\<not> i + 1 < MAX_SLOTS"
      then have "total_loop h (i + 1) (r + slots h i) = r + slots h i"
        by (rule total_loop_end)
      with tl False show False by simp
    qed
    show ?thesis
    proof (cases "t1 \<le> r + slots h i")
      case True
      with "1.prems" have b1: "bucket_loop h t1 i r = bucket_value i"
        by (subst bucket_loop.simps) simp
      from bucket_loop_first [OF lt tl]
      obtain j where "i + 1 \<le> j" "j < MAX_SLOTS"
        "bucket_loop h t2 (i + 1) (r + slots h i) = bucket_value j" by blast
      with step2 b1 show ?thesis by (intro exI [of _ i] exI [of _ j]) simp
    next
      case f1: False
      with "1.prems" have step1: "bucket_loop h t1 i r = bucket_loop h t1 (i + 1) (r + slots h i)"
        by (subst bucket_loop.simps) simp
      from "1.IH" [OF "1.prems"(1) False lt "1.prems"(2) tl] step1 step2
      show ?thesis by simp
    qed
  qed
qed

lemma bucket_value_Finite:
  "bucket_value j = Inr (Finite a) \<Longrightarrow> j < 31 \<and> a = 2 ^ j"
  by (auto simp: bucket_value_def shl_one_def split: if_splits)

lemma double_to_u32_in_range:
  assumes "0 \<le> x" "x \<le> real (unat (tot :: u32))"
  shows "\<exists>t. double_to_u32 x = Inr t \<and> unat t = nat \<lfloor>x\<rfloor>"
proof -
  have "unat tot < 2 ^ 32" using unsigned_less [of tot] by simp
  then have "real (unat tot) < 2 ^ 32" by (metis of_nat_less_iff of_nat_numeral of_nat_power)
  with assms have "x < 2 ^ 32" by simp
  then have f: "\<lfloor>x\<rfloor> < 2 ^ 32" by (simp add: floor_less_iff)
  from assms have g: "0 \<le> \<lfloor>x\<rfloor>" by simp
  have "unat (word_of_int \<lfloor>x\<rfloor> :: u32) = nat \<lfloor>x\<rfloor>"
    using f g by (simp add: unat_eq_nat_uint uint_word_of_int take_bit_int_eq_self)
  with assms f g show ?thesis by (simp add: double_to_u32_def Let_def)
qed

lemma percentile_mono_where_defined:
  assumes "0 \<le> p1" "p1 \<le> p2" "p2 \<le> 100"
    and "calculate_percentile h p1 = Inr (Finite a)"
    and "calculate_percentile h p2 = Inr (Finite b)"
  shows "a \<le> b"
proof (cases "total_loop h 0 0 = 0")
  case True
  with assms show ?thesis by (simp add: calculate_percentile_def)
next
  case False
  define tot where "tot = total_loop h 0 0"
  define n where "n = real (unat tot)"
  have n0: "0 \<le> n" unfolding n_def by (rule of_nat_0_le_iff)
  define x1 where "x1 = n * p1 / 100"
  define x2 where "x2 = n * p2 / 100"
  have "0 \<le> n * p1" using n0 assms(1) by (rule mult_nonneg_nonneg)
  then have xa: "0 \<le> x1" unfolding x1_def by simp
  have "n * p1 \<le> n * p2" using assms(2) n0 by (rule mult_left_mono)
  then have xb: "x1 \<le> x2" unfolding x1_def x2_def by (simp add: divide_right_mono)
  have "n * p2 \<le> n * 100" using assms(3) n0 by (rule mult_left_mono)
  then have xc: "x2 \<le> n" unfolding x2_def by simp
  note x = xa xb xc [unfolded n_def]
  then have x1': "x1 \<le> real (unat tot)" and x2': "0 \<le> x2" by simp_all
  from double_to_u32_in_range [OF x(1) x1']
  obtain t1 where t1: "double_to_u32 x1 = Inr t1" "unat t1 = nat \<lfloor>x1\<rfloor>" by blast
  from double_to_u32_in_range [OF x2' x(3)]
  obtain t2 where t2: "double_to_u32 x2 = Inr t2" "unat t2 = nat \<lfloor>x2\<rfloor>" by blast
  from x have "\<lfloor>x1\<rfloor> \<le> \<lfloor>x2\<rfloor>" by (simp add: floor_mono)
  then have le12: "t1 \<le> t2" using t1 t2 by (simp add: word_le_nat_alt nat_mono)
  from x(3) have "\<lfloor>x2\<rfloor> \<le> \<lfloor>real (unat tot)\<rfloor>" by (rule floor_mono)
  then have "\<lfloor>x2\<rfloor> \<le> int (unat tot)" by (simp only: floor_of_nat)
  then have "nat \<lfloor>x2\<rfloor> \<le> unat tot" by (simp only: nat_le_iff)
  then have le2: "t2 \<le> total_loop h 0 0" using t2 unfolding tot_def [symmetric]
    by (simp only: word_le_nat_alt)
  have "0 < MAX_SLOTS" by (simp add: MAX_SLOTS_def)
  from bucket_loop_mono [OF this le12 le2]
  obtain j1 j2 where j: "j1 \<le> j2" "bucket_loop h t1 0 0 = bucket_value j1"
    "bucket_loop h t2 0 0 = bucket_value j2" by blast
  from assms(4) False t1 j have "bucket_value j1 = Inr (Finite a)"
    by (simp add: calculate_percentile_def tot_def x1_def n_def)
  then have a: "a = 2 ^ j1" by (simp add: bucket_value_Finite)
  from assms(5) False t2 j have "bucket_value j2 = Inr (Finite b)"
    by (simp add: calculate_percentile_def tot_def x2_def n_def)
  then have b: "b = 2 ^ j2" by (simp add: bucket_value_Finite)
  from j(1) show ?thesis unfolding a b by (simp add: power_increasing)
qed

lemma total_loop_running_after:
  "i < MAX_SLOTS \<Longrightarrow> total_loop h i r = running_after h i r (MAX_SLOTS - 1)"
proof (induction h i r rule: total_loop.induct)
  case (1 h i r)
  show ?case
  proof (cases "i + 1 < MAX_SLOTS")
    case True
    then have "i < MAX_SLOTS - 1" by simp
    from running_after_head [OF this, of h r] "1.IH" [OF "1.prems" True] "1.prems"
    show ?thesis by (simp add: total_loop_step)
  next
    case False
    with "1.prems" have i: "i = MAX_SLOTS - 1" by simp
    from False have "total_loop h (i + 1) (r + slots h i) = r + slots h i"
      by (rule total_loop_end)
    with "1.prems" have "total_loop h i r = r + slots h i" by (simp add: total_loop_step)
    then show ?thesis unfolding i [symmetric] by (simp add: running_after_self)
  qed
qed

lemma calculate_percentile_empty:
  "total_loop h 0 0 = 0 \<Longrightarrow> calculate_percentile h p = Inr (Finite 0)"
  by (simp add: calculate_percentile_def)

lemma bucket_value_cases:
  "bucket_value j = (if j < 31 then Inr (Finite (2 ^ j)) else Inl Shift_overflow)"
  by (simp add: bucket_value_def shl_one_def)

lemma calculate_percentile_walk:
  assumes "0 \<le> p" "p \<le> 100" "total_loop h 0 0 \<noteq> 0"
  shows "\<exists>t j. unat t = nat \<lfloor>real (unat (total_loop h 0 0)) * p / 100\<rfloor>
           \<and> j < MAX_SLOTS
           \<and> t \<le> running_after h 0 0 j
           \<and> (\<forall>k. k < j \<longrightarrow> running_after h 0 0 k < t)
           \<and> calculate_percentile h p = bucket_value j"
proof -
  let ?n = "real (unat (total_loop h 0 0))"
  have n0: "0 \<le> ?n" by (rule of_nat_0_le_iff)
  have "0 \<le> ?n * p" using n0 assms(1) by (rule mult_nonneg_nonneg)
  then have xa: "0 \<le> ?n * p / 100" by simp
  have "?n * p \<le> ?n * 100" using assms(2) n0 by (rule mult_left_mono)
  then have xb: "?n * p / 100 \<le> ?n" by simp
  from double_to_u32_in_range [OF xa xb]
  obtain t where t: "double_to_u32 (?n * p / 100) = Inr t" "unat t = nat \<lfloor>?n * p / 100\<rfloor>"
    by blast
  from xb have "\<lfloor>?n * p / 100\<rfloor> \<le> \<lfloor>?n\<rfloor>" by (rule floor_mono)
  then have "\<lfloor>?n * p / 100\<rfloor> \<le> int (unat (total_loop h 0 0))"
    by (simp only: floor_of_nat)
  then have "nat \<lfloor>?n * p / 100\<rfloor> \<le> unat (total_loop h 0 0)" by (simp only: nat_le_iff)
  then have le: "t \<le> total_loop h 0 0" using t(2) by (simp only: word_le_nat_alt)
  have "0 < MAX_SLOTS" by (simp add: MAX_SLOTS_def)
  from bucket_loop_first [OF this le]
  obtain j where j: "j < MAX_SLOTS" "bucket_loop h t 0 0 = bucket_value j"
    "t \<le> running_after h 0 0 j" "\<forall>k. 0 \<le> k \<and> k < j \<longrightarrow> running_after h 0 0 k < t"
    by blast
  from assms(3) t(1) j(2) have "calculate_percentile h p = bucket_value j"
    by (simp add: calculate_percentile_def)
  with t(2) j show ?thesis by (intro exI [of _ t] exI [of _ j]) simp
qed





subsection \<open>The counters of a node\<close>

text \<open>
  Without the two scheduler programs the counters behave as intended: once a node has its
  record, any sequence of the other three programs keeps the record and leaves
  \<^verbatim>\<open>retrans_count\<close> and \<^verbatim>\<open>drop_count\<close> at their old values plus the increments applied
  (in \<^verbatim>\<open>__u64\<close> arithmetic).
\<close>

lemma lookup_or_create_present:
  "map_of m k = Some v \<Longrightarrow> lookup_or_create n m k z = m"
  by (simp add: lookup_or_create_def bpf_map_lookup_elem_def)

lemma lookup_or_create_other:
  "map_of m k = Some v \<Longrightarrow> map_of (lookup_or_create n m k' z) k = Some v"
  by (auto simp: lookup_or_create_def bpf_map_lookup_elem_def bpf_map_update_elem_def
      update_conv' split: option.splits)

lemma trace_tcp_retrans_counts:
  assumes "map_of (node_metrics_map s) n = Some m"
  shows "\<exists>m'. map_of (node_metrics_map (trace_tcp_retrans h s)) n = Some m'
    \<and> retrans_count m' = retrans_count m + (if get_node_id h = n then 1 else 0)
    \<and> drop_count m' = drop_count m"
proof (cases "get_node_id h = n")
  case True
  with assms show ?thesis
    by (simp add: trace_tcp_retrans_def Let_def lookup_or_create_present
        bpf_map_lookup_elem_def ringbuf_submit_def update_conv')
next
  case False
  from lookup_or_create_other [OF assms]
  have o: "map_of (lookup_or_create MAX_NODES (node_metrics_map s) (get_node_id h) new_metrics) n
           = Some m" .
  with False show ?thesis
    by (auto simp: trace_tcp_retrans_def Let_def bpf_map_lookup_elem_def ringbuf_submit_def
        update_conv' split: option.splits)
qed

lemma trace_skb_drop_counts:
  assumes "map_of (node_metrics_map s) n = Some m"
  shows "\<exists>m'. map_of (node_metrics_map (trace_skb_drop h ctx s)) n = Some m'
    \<and> retrans_count m' = retrans_count m
    \<and> drop_count m' = drop_count m + (if get_node_id h = n then 1 else 0)"
proof (cases "get_node_id h = n")
  case True
  with assms show ?thesis
    by (simp add: trace_skb_drop_def Let_def lookup_or_create_present
        bpf_map_lookup_elem_def ringbuf_submit_def update_conv')
next
  case False
  from lookup_or_create_other [OF assms]
  have o: "map_of (lookup_or_create MAX_NODES (node_metrics_map s) (get_node_id h) new_metrics) n
           = Some m" .
  with False show ?thesis
    by (auto simp: trace_skb_drop_def Let_def bpf_map_lookup_elem_def ringbuf_submit_def
        update_conv' split: option.splits)
qed

lemma trace_tcp_ack_counts:
  assumes "map_of (node_metrics_map s) n = Some m"
  shows "\<exists>m'. map_of (node_metrics_map (trace_tcp_ack h ctx s)) n = Some m'
    \<and> retrans_count m' = retrans_count m \<and> drop_count m' = drop_count m"
proof (cases "get_node_id h = n")
  case True
  with assms show ?thesis
    by (auto simp: trace_tcp_ack_def Let_def lookup_or_create_present
        bpf_map_lookup_elem_def ringbuf_submit_def update_conv'
        split: tcp_ack_ctx.splits option.splits)
next
  case False
  from lookup_or_create_other [OF assms]
  have o: "map_of (lookup_or_create MAX_NODES (node_metrics_map s) (get_node_id h) new_metrics) n
           = Some m" .
  with False assms show ?thesis
    by (auto simp: trace_tcp_ack_def Let_def bpf_map_lookup_elem_def ringbuf_submit_def
        update_conv' split: tcp_ack_ctx.splits option.splits)
qed

lemma invoke_counts:
  assumes "map_of (node_metrics_map s) n = Some m" "\<not> sched_program call"
  shows "\<exists>m'. map_of (node_metrics_map (invoke call s)) n = Some m'
    \<and> retrans_count m' = retrans_count m + retrans_delta n call
    \<and> drop_count m' = drop_count m + drop_delta n call"
proof (cases call)
  case (Pair h tp)
  with assms(2) show ?thesis
    using trace_tcp_ack_counts [OF assms(1), of h] trace_tcp_retrans_counts [OF assms(1), of h]
      trace_skb_drop_counts [OF assms(1), of h]
    by (cases tp) (simp_all add: retrans_delta_def drop_delta_def)
qed

lemma run_counts:
  assumes "map_of (node_metrics_map s) n = Some m" "list_all (\<lambda>call. \<not> sched_program call) calls"
  shows "\<exists>m'. map_of (node_metrics_map (run calls s)) n = Some m'
    \<and> retrans_count m' = retrans_count m + sum_list (map (retrans_delta n) calls)
    \<and> drop_count m' = drop_count m + sum_list (map (drop_delta n) calls)"
  using assms
proof (induction calls arbitrary: s m)
  case Nil
  then show ?case by (simp add: run_def)
next
  case (Cons call calls)
  from Cons.prems have a: "\<not> sched_program call" and b: "list_all (\<lambda>call. \<not> sched_program call) calls"
    by simp_all
  from invoke_counts [OF Cons.prems(1) a]
  obtain m1 where m1: "map_of (node_metrics_map (invoke call s)) n = Some m1"
    "retrans_count m1 = retrans_count m + retrans_delta n call"
    "drop_count m1 = drop_count m + drop_delta n call" by blast
  from Cons.IH [OF m1(1) b]
  obtain m' where "map_of (node_metrics_map (run calls (invoke call s))) n = Some m'"
    "retrans_count m' = retrans_count m1 + sum_list (map (retrans_delta n) calls)"
    "drop_count m' = drop_count m1 + sum_list (map (drop_delta n) calls)" by blast
  with m1 show ?case by (simp add: run_def add.assoc)
qed

lemmas run_simps =
  run_def trace_tcp_retrans_def trace_sched_wakeup_def trace_sched_switch_def
  lookup_or_create_def bpf_map_lookup_elem_def bpf_map_update_elem_def
  bpf_map_delete_elem_def ringbuf_submit_def get_node_id_def new_metrics_def no_maps_def
  MAX_NODES_def Let_def on_cpu0_def on_cpu1_def

text \<open>
  C3 at a failing input.  Two retransmissions on processor 1 bring \<^verbatim>\<open>retrans_count\<close> of
  node 1 to 2.  A wakeup of the process with pid 1 then replaces the whole record of node 1
  by the timestamp and what lay next to it on the stack; a switch to pid 1 instead deletes
  the record, and a third retransmission leaves the counter at 1 after three increments.
\<close>

theorem node_counters_clobbered:
  "map_option retrans_count
     (bpf_map_lookup_elem
        (node_metrics_map
           (run [(on_cpu1, Tcp_retransmit_skb), (on_cpu1, Tcp_retransmit_skb)] no_maps)) 1)
     = Some 2
   \<and> bpf_map_lookup_elem
        (node_metrics_map
           (run [(on_cpu1, Tcp_retransmit_skb), (on_cpu1, Tcp_retransmit_skb),
                 (on_cpu1, Sched_wakeup 1 stack)] no_maps)) 1
     = Some (stack\<lparr>rtt_sum := 1000000000\<rparr>)
   \<and> bpf_map_lookup_elem
        (node_metrics_map
           (run [(on_cpu1, Tcp_retransmit_skb), (on_cpu1, Tcp_retransmit_skb),
                 (on_cpu0, Sched_switch 1)] no_maps)) 1
     = None
   \<and> map_option retrans_count
       (bpf_map_lookup_elem
          (node_metrics_map
             (run [(on_cpu1, Tcp_retransmit_skb), (on_cpu1, Tcp_retransmit_skb),
                   (on_cpu0, Sched_switch 1), (on_cpu1, Tcp_retransmit_skb)] no_maps)) 1)
     = Some 1"
  by (simp add: run_simps)

end
